theory Spec2Isabelle
  imports Complex_Main
begin

section \<open>The mastering service of make-singer-backend\<close>

text \<open>
  This theory embeds \<^verbatim>\<open>audio-service/services/master.py\<close>: the mixing of stems
  (\<^verbatim>\<open>_mix_stems\<close>), the combination of vocal takes (\<^verbatim>\<open>_load_vocals\<close>), the mastering chain
  (\<^verbatim>\<open>_apply_mastering\<close>), the loudness estimate (\<^verbatim>\<open>_calculate_lufs\<close>) and the request
  handler (\<^verbatim>\<open>process\<close>). The functions keep their names, without the leading underscore.

  The service computes on \<^verbatim>\<open>pydub.AudioSegment\<close> values. The operations of that library the
  service calls are modelled in the first part: a segment is its format and its interleaved
  fixed-point samples, and the arithmetic on samples is the one of Python's \<^verbatim>\<open>audioop\<close>
  (sums saturate, products are floored and saturate). Python floats are modelled as real
  numbers; minus infinity, which \<^verbatim>\<open>max_dBFS\<close> returns on silence, is a value of its own.
  The signal processing the service only passes through (resampling, panning, the two filters,
  the compressor) is a parameter of the model, the record \<open>effects\<close>: every theorem below
  holds whatever these functions compute.
\<close>

subsection \<open>Python values\<close>

text \<open>A float that may be minus infinity (\<^verbatim>\<open>-float('inf')\<close>).\<close>

datatype level = MinusInf | Level real

text \<open>\<^verbatim>\<open>x > t\<close> for a level \<open>x\<close> and a finite \<open>t\<close>: minus infinity is greater than nothing.\<close>

fun level_gt :: "level \<Rightarrow> real \<Rightarrow> bool" where
  "level_gt MinusInf t = False"
| "level_gt (Level d) t = (t < d)"

text \<open>\<^verbatim>\<open>d.get(key, default)\<close> on a dictionary entry that may be absent.\<close>

fun dget :: "'a \<Rightarrow> 'a option \<Rightarrow> 'a" where
  "dget d None = d"
| "dget d (Some v) = v"

text \<open>Python 3's \<^verbatim>\<open>round(x)\<close>: to the nearest integer, a tie to the even one.\<close>

definition py_round :: "real \<Rightarrow> int" where
  "py_round x =
     (let f = \<lfloor>x\<rfloor>; r = x - of_int f
      in if r < 1 / 2 then f else if 1 / 2 < r then f + 1 else if even f then f else f + 1)"

text \<open>\<^verbatim>\<open>round(x, 1)\<close>: to one decimal place.\<close>

definition py_round1 :: "real \<Rightarrow> real" where
  "py_round1 x = of_int (py_round (x * 10)) / 10"

text \<open>
  The exceptions the service can end with. \<open>NoStemsProvided\<close> is the
  \<^verbatim>\<open>ValueError("No stems provided")\<close> of \<^verbatim>\<open>_mix_stems\<close>; \<open>NoStorage\<close> is the
  \<^verbatim>\<open>AttributeError\<close> of calling \<^verbatim>\<open>download_to_file\<close> on \<^verbatim>\<open>None\<close>; \<open>KeyError k\<close>
  is the \<^verbatim>\<open>KeyError\<close> of indexing a dictionary at a key \<open>k\<close> it does not have;
  \<open>StorageFailure\<close> is whatever the storage collaborator or the decoder raises;
  \<open>PydubFailure\<close> is an exception raised inside the audio library.
\<close>

datatype error =
    NoStemsProvided
  | NoStorage
  | KeyError string
  | StorageFailure string
  | PydubFailure string

subsection \<open>Audio segments\<close>

text \<open>
  \<open>sample_width\<close> is in bytes, \<open>samples\<close> are the interleaved samples of all channels
  (\<^verbatim>\<open>get_array_of_samples()\<close>).
\<close>

record audio =
  sample_width :: nat
  frame_rate :: nat
  channels :: nat
  samples :: "int list"

text \<open>\<^verbatim>\<open>frame_count()\<close>: \<^verbatim>\<open>len(self._data) // self.frame_width\<close>.\<close>

definition frame_count :: "audio \<Rightarrow> nat" where
  "frame_count a = length (samples a) div channels a"

text \<open>\<^verbatim>\<open>len(seg)\<close>, in milliseconds: \<^verbatim>\<open>round(1000 * (self.frame_count() / self.frame_rate))\<close>.\<close>

definition len_ms :: "audio \<Rightarrow> nat" where
  "len_ms a = nat (py_round (1000 * (real (frame_count a) / real (frame_rate a))))"

text \<open>
  \<^verbatim>\<open>AudioSegment.silent(duration)\<close> with the default \<^verbatim>\<open>frame_rate=11025\<close>:
  \<^verbatim>\<open>int(frame_rate * (duration / 1000.0))\<close> zero frames, one channel, two bytes per sample.
\<close>

definition silent :: "nat \<Rightarrow> audio" where
  "silent duration =
     \<lparr>sample_width = 2, frame_rate = 11025, channels = 1,
      samples = replicate (nat \<lfloor>11025 * (real duration / 1000)\<rfloor>) 0\<rparr>"

subsection \<open>Sample arithmetic (audioop)\<close>

definition maxval :: "nat \<Rightarrow> int" where
  "maxval w = 2 ^ (8 * w - 1) - 1"

definition minval :: "nat \<Rightarrow> int" where
  "minval w = - (2 ^ (8 * w - 1))"

text \<open>\<^verbatim>\<open>floor(fbound(val, minval, maxval))\<close>.\<close>

definition fbound_floor :: "nat \<Rightarrow> real \<Rightarrow> int" where
  "fbound_floor w x =
     (if of_int (maxval w) < x then maxval w
      else if x < of_int (minval w) + 1 then minval w
      else \<lfloor>x\<rfloor>)"

text \<open>\<^verbatim>\<open>audioop.add\<close> on one pair of samples: the sum, truncated in case of overflow.\<close>

definition audioop_add :: "nat \<Rightarrow> int \<Rightarrow> int \<Rightarrow> int" where
  "audioop_add w x y =
     (if maxval w < x + y then maxval w
      else if x + y < minval w then minval w
      else x + y)"

text \<open>\<^verbatim>\<open>audioop.mul\<close> on one sample.\<close>

definition audioop_mul :: "nat \<Rightarrow> real \<Rightarrow> int \<Rightarrow> int" where
  "audioop_mul w factor s = fbound_floor w (of_int s * factor)"

text \<open>\<^verbatim>\<open>audioop.max\<close>: the largest absolute value of the samples, 0 on no sample.\<close>

fun audioop_max :: "int list \<Rightarrow> int" where
  "audioop_max [] = 0"
| "audioop_max (s # xs) = max \<bar>s\<bar> (audioop_max xs)"

text \<open>\<^verbatim>\<open>audioop.lin2lin\<close> on one sample, from width \<open>w\<close> to width \<open>w'\<close>.\<close>

definition lin2lin :: "nat \<Rightarrow> nat \<Rightarrow> int \<Rightarrow> int" where
  "lin2lin w w' s = (if w \<le> w' then s * 2 ^ (8 * (w' - w)) else s div 2 ^ (8 * (w - w')))"

subsection \<open>Signal processing left to the library\<close>

text \<open>
  \<open>ratecv w c r r' xs\<close> is \<^verbatim>\<open>audioop.ratecv\<close> from rate \<open>r\<close> to rate \<open>r'\<close>;
  \<open>pan_samples\<close> gives the samples of \<^verbatim>\<open>AudioSegment.pan\<close>, which may raise (its message
  is the left value); the filters take the cutoff, the compressor the threshold and the ratio.
\<close>

record effects =
  ratecv :: "nat \<Rightarrow> nat \<Rightarrow> nat \<Rightarrow> nat \<Rightarrow> int list \<Rightarrow> int list"
  pan_samples :: "audio \<Rightarrow> real \<Rightarrow> string + int list"
  low_pass_filter :: "audio \<Rightarrow> nat \<Rightarrow> audio"
  high_pass_filter :: "audio \<Rightarrow> nat \<Rightarrow> audio"
  compress_dynamic_range :: "audio \<Rightarrow> real \<Rightarrow> real \<Rightarrow> audio"

text \<open>
  Effects that change nothing: a closed value for the instances of the theorems. No instance
  below reaches the resampler or the panner, and the filters are not reached where a profile
  has no equaliser gain.
\<close>

definition bypass :: effects where
  "bypass =
     \<lparr>ratecv = (\<lambda>w c r r' xs. xs), pan_samples = (\<lambda>a p. Inr (samples a)),
      low_pass_filter = (\<lambda>a f. a), high_pass_filter = (\<lambda>a f. a),
      compress_dynamic_range = (\<lambda>a t r. a)\<rparr>"

subsection \<open>Operations on segments\<close>

text \<open>\<^verbatim>\<open>db_to_float\<close>: \<^verbatim>\<open>10 ** (db / 20)\<close>, which is 0.0 at minus infinity.\<close>

fun db_to_float :: "level \<Rightarrow> real" where
  "db_to_float MinusInf = 0"
| "db_to_float (Level d) = 10 powr (d / 20)"

text \<open>\<^verbatim>\<open>ratio_to_db\<close>: minus infinity at 0, else \<^verbatim>\<open>20 * log(ratio, 10)\<close>.\<close>

definition ratio_to_db :: "real \<Rightarrow> level" where
  "ratio_to_db ratio = (if ratio = 0 then MinusInf else Level (20 * log 10 ratio))"

text \<open>\<^verbatim>\<open>apply_gain\<close> (\<^verbatim>\<open>seg + db\<close>): every sample times \<^verbatim>\<open>db_to_float(db)\<close>.\<close>

definition apply_gain :: "audio \<Rightarrow> level \<Rightarrow> audio" where
  "apply_gain a g =
     a\<lparr>samples := map (audioop_mul (sample_width a) (db_to_float g)) (samples a)\<rparr>"

definition max_possible_amplitude :: "audio \<Rightarrow> real" where
  "max_possible_amplitude a = 2 ^ (sample_width a * 8) / 2"

definition max_dBFS :: "audio \<Rightarrow> level" where
  "max_dBFS a = ratio_to_db (of_int (audioop_max (samples a)) / max_possible_amplitude a)"

text \<open>\<^verbatim>\<open>pydub.effects.normalize\<close> with its default \<^verbatim>\<open>headroom=0.1\<close>.\<close>

definition normalize :: "audio \<Rightarrow> audio" where
  "normalize seg =
     (let peak_sample_val = audioop_max (samples seg)
      in if peak_sample_val = 0 then seg
         else
           let target_peak = max_possible_amplitude seg * db_to_float (Level (- (1 / 10)));
               needed_boost = ratio_to_db (target_peak / of_int peak_sample_val)
           in apply_gain seg needed_boost)"

text \<open>
  \<^verbatim>\<open>set_channels\<close>. Mono becomes \<open>c\<close> channels by repeating every sample; stereo becomes mono
  by \<^verbatim>\<open>audioop.tomono\<close> with factors 0.5; more channels become mono by summing
  \<^verbatim>\<open>sample // channels\<close>; anything else raises \<^verbatim>\<open>ValueError\<close>.
\<close>

definition frames_of :: "nat \<Rightarrow> int list \<Rightarrow> int list list" where
  "frames_of c xs = map (\<lambda>i. take c (drop (i * c) xs)) [0..<length xs div c]"

definition set_channels :: "nat \<Rightarrow> audio \<Rightarrow> error + audio" where
  "set_channels c a =
     (if c = channels a then Inr a
      else if c = 2 \<and> channels a = 1 then
        Inr (a\<lparr>channels := 2, samples := concat (map (replicate 2) (samples a))\<rparr>)
      else if c = 1 \<and> channels a = 2 then
        Inr (a\<lparr>channels := 1,
               samples := map (\<lambda>fr. fbound_floor (sample_width a) (of_int (sum_list fr) / 2))
                            (frames_of 2 (samples a))\<rparr>)
      else if c = 1 then
        Inr (a\<lparr>channels := 1,
               samples := map (\<lambda>fr. sum_list (map (\<lambda>x. x div int (channels a)) fr))
                            (frames_of (channels a) (samples a))\<rparr>)
      else if channels a = 1 then
        Inr (a\<lparr>channels := c, samples := concat (map (replicate c) (samples a))\<rparr>)
      else Inl (PydubFailure ''AudioSegment.set_channels only supports mono-to-multi channel and multi-to-mono channel conversion''))"

text \<open>\<^verbatim>\<open>set_frame_rate\<close>: nothing at the same rate, no resampling of empty data.\<close>

definition set_frame_rate :: "effects \<Rightarrow> nat \<Rightarrow> audio \<Rightarrow> audio" where
  "set_frame_rate L r a =
     (if r = frame_rate a then a
      else if samples a \<noteq> [] then
        a\<lparr>frame_rate := r,
          samples := ratecv L (sample_width a) (channels a) (frame_rate a) r (samples a)\<rparr>
      else a\<lparr>frame_rate := r\<rparr>)"

definition set_sample_width :: "nat \<Rightarrow> audio \<Rightarrow> audio" where
  "set_sample_width w a =
     (if w = sample_width a then a
      else a\<lparr>sample_width := w, samples := map (lin2lin (sample_width a) w) (samples a)\<rparr>)"

text \<open>
  One segment of \<^verbatim>\<open>AudioSegment._sync\<close>, brought to \<open>c\<close> channels, rate \<open>r\<close> and width \<open>w\<close>:
  \<^verbatim>\<open>seg.set_channels(channels).set_frame_rate(frame_rate).set_sample_width(sample_width)\<close>.
\<close>

definition conform :: "effects \<Rightarrow> nat \<Rightarrow> nat \<Rightarrow> nat \<Rightarrow> audio \<Rightarrow> error + audio" where
  "conform L c r w a =
     (case set_channels c a of
        Inl e \<Rightarrow> Inl e
      | Inr a' \<Rightarrow> Inr (set_sample_width w (set_frame_rate L r a')))"

text \<open>
  \<^verbatim>\<open>seg[0:]._data\<close>, the slice of a segment from 0 to its length in milliseconds
  (\<^verbatim>\<open>__getitem__\<close>): the data up to the frame \<^verbatim>\<open>int(len(seg) * (frame_rate / 1000.0))\<close>;
  frames missing up to there are filled with silence, and \<^verbatim>\<open>TooManyMissingFrames\<close> is raised
  when more than two milliseconds are missing.
\<close>

definition slice_from_start :: "audio \<Rightarrow> error + int list" where
  "slice_from_start seg =
     (let end_frame = nat \<lfloor>real (len_ms seg) * (real (frame_rate seg) / 1000)\<rfloor>;
          data = take (end_frame * channels seg) (samples seg);
          missing_frames = (end_frame * channels seg - length data) div channels seg
      in if missing_frames \<noteq> 0 then
           (if 2 * (real (frame_rate seg) / 1000) < real missing_frames
            then Inl (PydubFailure ''TooManyMissingFrames'')
            else Inr (data @ concat (replicate missing_frames
                                       (replicate (length (take (channels seg) data)) 0))))
         else Inr data)"

text \<open>
  \<^verbatim>\<open>self.overlay(seg)\<close> with the defaults \<^verbatim>\<open>position=0\<close>, \<^verbatim>\<open>times=1\<close>: both segments are
  brought to the larger channel count, rate and width; the data of \<open>self\<close> is its slice
  \<^verbatim>\<open>seg1[position:]\<close>; \<open>seg\<close> is cut to the length of that data; the samples are added over
  the length of \<open>seg\<close>, and the rest of the data of \<open>self\<close> follows.
\<close>

definition overlay :: "effects \<Rightarrow> audio \<Rightarrow> audio \<Rightarrow> error + audio" where
  "overlay L self seg =
     (let c = max (channels self) (channels seg);
          r = max (frame_rate self) (frame_rate seg);
          w = max (sample_width self) (sample_width seg)
      in case conform L c r w self of
           Inl e \<Rightarrow> Inl e
         | Inr seg1 \<Rightarrow>
             (case conform L c r w seg of
                Inl e \<Rightarrow> Inl e
              | Inr seg2 \<Rightarrow>
                  (case slice_from_start seg1 of
                     Inl e \<Rightarrow> Inl e
                   | Inr d1 \<Rightarrow>
                       let d2 = (if length d1 \<le> length (samples seg2)
                                 then take (length d1) (samples seg2) else samples seg2)
                       in Inr (seg1\<lparr>samples :=
                                 map2 (audioop_add w) (take (length d2) d1) d2
                                 @ drop (length d2) d1\<rparr>))))"

text \<open>
  A segment whose data holds exactly the frames of its length in whole milliseconds: slicing
  it from 0 gives its data back. Not a function of the library; the theorems on lengths are
  stated with it.
\<close>

definition whole_ms :: "audio \<Rightarrow> bool" where
  "whole_ms a \<longleftrightarrow>
     length (samples a) = nat \<lfloor>real (len_ms a) * (real (frame_rate a) / 1000)\<rfloor> * channels a"

section \<open>services/master.py\<close>

subsection \<open>Profiles\<close>

record eq_settings =
  low :: "real option"
  mid :: "real option"
  high :: "real option"

record profile_settings =
  eq :: "eq_settings option"
  compression_threshold :: "real option"
  compression_ratio :: "real option"
  limiter_threshold :: "real option"
  target_lufs :: "real option"

definition clean_profile :: profile_settings where
  "clean_profile =
     \<lparr>eq = Some \<lparr>low = Some 0, mid = Some 0, high = Some 0\<rparr>,
      compression_threshold = Some (- 20), compression_ratio = Some 2,
      limiter_threshold = Some (- 1), target_lufs = Some (- 14)\<rparr>"

definition warm_profile :: profile_settings where
  "warm_profile =
     \<lparr>eq = Some \<lparr>low = Some 2, mid = Some (- 1), high = Some (- 1)\<rparr>,
      compression_threshold = Some (- 18), compression_ratio = Some 3,
      limiter_threshold = Some (- (1 / 2)), target_lufs = Some (- 12)\<rparr>"

definition loud_profile :: profile_settings where
  "loud_profile =
     \<lparr>eq = Some \<lparr>low = Some 1, mid = Some 1, high = Some 2\<rparr>,
      compression_threshold = Some (- 15), compression_ratio = Some 4,
      limiter_threshold = Some (- (3 / 10)), target_lufs = Some (- 10)\<rparr>"

definition PROFILES :: "string \<rightharpoonup> profile_settings" where
  "PROFILES =
     map_of [(''clean'', clean_profile), (''warm'', warm_profile), (''loud'', loud_profile)]"

text \<open>
  Lines 64 to 67 of \<^verbatim>\<open>process\<close>: an unknown name becomes \<^verbatim>\<open>"clean"\<close>, then the table is
  indexed (\<open>None\<close> would be the \<^verbatim>\<open>KeyError\<close> of \<^verbatim>\<open>PROFILES[profile]\<close>).
\<close>

definition select_profile :: "string \<Rightarrow> profile_settings option" where
  "select_profile profile =
     (let profile' = (if profile \<notin> dom PROFILES then ''clean'' else profile)
      in PROFILES profile')"

subsection \<open>Mixing\<close>

text \<open>One entry of \<^verbatim>\<open>mix_settings\<close>; \<open>None\<close> is a key the dictionary does not have.\<close>

record mix_setting =
  volume :: "real option"
  pan :: "real option"
  mute :: "bool option"
  solo :: "bool option"

text \<open>The empty dictionary \<^verbatim>\<open>{}\<close> a stem without an entry gets.\<close>

definition no_setting :: mix_setting where
  "no_setting = \<lparr>volume = None, pan = None, mute = None, solo = None\<rparr>"

text \<open>
  The volume step, the same in \<^verbatim>\<open>_mix_stems\<close> (lines 137 to 141) and \<^verbatim>\<open>_load_vocals\<close>
  (lines 168 to 171).
\<close>

definition apply_volume :: "real option \<Rightarrow> audio \<Rightarrow> audio" where
  "apply_volume v stem =
     (let vol = dget 1 v
      in if vol \<noteq> 1 then
           let volume_db = 20 * log 10 (max vol (1 / 1000))
           in apply_gain stem (Level volume_db)
         else stem)"

text \<open>
  The pan step, lines 144 to 146. \<^verbatim>\<open>pan\<close> returns a stereo segment of the same rate and
  width (\<^verbatim>\<open>apply_gain_stereo\<close>).
\<close>

definition apply_pan :: "effects \<Rightarrow> real option \<Rightarrow> audio \<Rightarrow> error + audio" where
  "apply_pan L p stem =
     (let pan_amount = dget 0 p
      in if pan_amount \<noteq> 0 then
           (case pan_samples L stem pan_amount of
              Inl msg \<Rightarrow> Inl (PydubFailure msg)
            | Inr xs \<Rightarrow> Inr (stem\<lparr>channels := 2, samples := xs\<rparr>))
         else Inr stem)"

text \<open>What a stem that is not skipped becomes before it is overlaid (lines 136 to 146).\<close>

definition prepare_stem :: "effects \<Rightarrow> mix_setting \<Rightarrow> audio \<Rightarrow> error + audio" where
  "prepare_stem L settings stem = apply_pan L (pan settings) (apply_volume (volume settings) stem)"

text \<open>\<^verbatim>\<open>mix_settings[i] if i < len(mix_settings) else {}\<close>.\<close>

definition setting_at :: "mix_setting list \<Rightarrow> nat \<Rightarrow> mix_setting" where
  "setting_at mix_settings i = (if i < length mix_settings then mix_settings ! i else no_setting)"

text \<open>The two \<^verbatim>\<open>continue\<close> tests of the loop (lines 129 and 133).\<close>

definition skipped :: "bool \<Rightarrow> mix_setting \<Rightarrow> bool" where
  "skipped has_solo settings =
     (if dget False (mute settings) then True
      else if has_solo \<and> \<not> dget False (solo settings) then True
      else False)"

text \<open>
  The loop \<^verbatim>\<open>for i, stem in enumerate(stems)\<close>, from index \<open>i\<close> on, with the mix so far.
\<close>

fun mix_loop ::
  "effects \<Rightarrow> bool \<Rightarrow> mix_setting list \<Rightarrow> nat \<Rightarrow> audio list \<Rightarrow> audio \<Rightarrow> error + audio" where
  "mix_loop L has_solo mix_settings i [] mixed = Inr mixed"
| "mix_loop L has_solo mix_settings i (stem # rest) mixed =
     (let settings = setting_at mix_settings i
      in if skipped has_solo settings then mix_loop L has_solo mix_settings (Suc i) rest mixed
         else
           (case prepare_stem L settings stem of
              Inl e \<Rightarrow> Inl e
            | Inr stem' \<Rightarrow>
                (case overlay L mixed stem' of
                   Inl e \<Rightarrow> Inl e
                 | Inr mixed' \<Rightarrow> mix_loop L has_solo mix_settings (Suc i) rest mixed')))"

text \<open>\<^verbatim>\<open>max(len(s) for s in stems)\<close>, on a list that is not empty.\<close>

definition max_length :: "audio list \<Rightarrow> nat" where
  "max_length stems = fold max (map len_ms (tl stems)) (len_ms (hd stems))"

text \<open>\<^verbatim>\<open>any(s.get("solo", False) for s in mix_settings)\<close>.\<close>

definition has_solo_of :: "mix_setting list \<Rightarrow> bool" where
  "has_solo_of mix_settings = list_ex (\<lambda>s. dget False (solo s)) mix_settings"

text \<open>The buffer the accumulation starts from (lines 122 and 123).\<close>

definition mix_start :: "audio list \<Rightarrow> audio" where
  "mix_start stems = silent (max_length stems)"

definition mix_stems :: "effects \<Rightarrow> audio list \<Rightarrow> mix_setting list \<Rightarrow> error + audio" where
  "mix_stems L stems mix_settings =
     (if stems = [] then Inl NoStemsProvided
      else mix_loop L (has_solo_of mix_settings) mix_settings 0 stems (mix_start stems))"

subsection \<open>Storage\<close>

text \<open>
  The storage collaborator as the service uses it: \<open>fetch url\<close> is \<^verbatim>\<open>download_to_file\<close>
  followed by \<^verbatim>\<open>AudioSegment.from_file\<close> (the decoded segment, or what was raised);
  \<open>upload_file key a\<close> is the upload of the exported master (its public URL, or what was
  raised).
\<close>

record storage =
  fetch :: "string \<Rightarrow> error + audio"
  upload_file :: "string \<Rightarrow> audio \<Rightarrow> error + string"

text \<open>The loop of lines 71 to 75; without a storage the first download raises.\<close>

fun download_stems :: "storage option \<Rightarrow> string list \<Rightarrow> error + audio list" where
  "download_stems st [] = Inr []"
| "download_stems st (u # urls) =
     (case st of
        None \<Rightarrow> Inl NoStorage
      | Some s \<Rightarrow>
          (case fetch s u of
             Inl e \<Rightarrow> Inl e
           | Inr a \<Rightarrow>
               (case download_stems st urls of
                  Inl e \<Rightarrow> Inl e
                | Inr stems \<Rightarrow> Inr (a # stems))))"

subsection \<open>Vocal takes\<close>

record vocal_take =
  url :: "string option"
  take_volume :: "real option"

text \<open>The loop of \<^verbatim>\<open>_load_vocals\<close> (lines 161 to 176), with \<open>combined\<close> so far.\<close>

fun vocals_loop ::
  "effects \<Rightarrow> storage \<Rightarrow> vocal_take list \<Rightarrow> audio option \<Rightarrow> error + audio option" where
  "vocals_loop L s [] combined = Inr combined"
| "vocals_loop L s (t # takes) combined =
     (case url t of
        None \<Rightarrow> Inl (KeyError ''url'')
      | Some u \<Rightarrow>
          (case fetch s u of
             Inl e \<Rightarrow> Inl e
           | Inr vocal \<Rightarrow>
               let vocal' = apply_volume (take_volume t) vocal
               in (case combined of
                     None \<Rightarrow> vocals_loop L s takes (Some vocal')
                   | Some c \<Rightarrow>
                       (case overlay L c vocal' of
                          Inl e \<Rightarrow> Inl e
                        | Inr c' \<Rightarrow> vocals_loop L s takes (Some c')))))"

definition load_vocals ::
  "effects \<Rightarrow> storage option \<Rightarrow> vocal_take list \<Rightarrow> error + audio option" where
  "load_vocals L st vocal_takes =
     (if vocal_takes = [] \<or> st = None then Inr None
      else vocals_loop L (the st) vocal_takes None)"

text \<open>
  Lines 81 to 84 of \<^verbatim>\<open>process\<close>. \<^verbatim>\<open>if vocal_audio:\<close> is the truth value of a segment, its
  length in milliseconds.
\<close>

definition add_vocals ::
  "effects \<Rightarrow> storage option \<Rightarrow> audio \<Rightarrow> vocal_take list \<Rightarrow> error + audio" where
  "add_vocals L st mixed vocal_takes =
     (if vocal_takes \<noteq> [] then
        (case load_vocals L st vocal_takes of
           Inl e \<Rightarrow> Inl e
         | Inr None \<Rightarrow> Inr mixed
         | Inr (Some vocal_audio) \<Rightarrow>
             if len_ms vocal_audio \<noteq> 0 then overlay L mixed vocal_audio else Inr mixed)
      else Inr mixed)"

subsection \<open>Mastering\<close>

text \<open>Lines 185 to 197: equaliser, compressor, normalisation.\<close>

definition pre_limiter :: "effects \<Rightarrow> audio \<Rightarrow> profile_settings \<Rightarrow> audio" where
  "pre_limiter L audio settings =
     (let e = dget \<lparr>low = None, mid = None, high = None\<rparr> (eq settings);
          a1 = (if dget 0 (low e) \<noteq> 0
                then apply_gain (low_pass_filter L audio 200) (Level (dget 0 (low e)))
                else audio);
          a2 = (if dget 0 (high e) \<noteq> 0
                then apply_gain (high_pass_filter L a1 8000) (Level (dget 0 (high e)))
                else a1);
          threshold = dget (- 20) (compression_threshold settings);
          ratio = dget 2 (compression_ratio settings);
          a3 = compress_dynamic_range L a2 threshold ratio
      in normalize a3)"

text \<open>
  Lines 200 to 202: \<^verbatim>\<open>audio - x\<close> is \<^verbatim>\<open>apply_gain(-x)\<close>.
\<close>

definition limiter :: "audio \<Rightarrow> profile_settings \<Rightarrow> audio" where
  "limiter audio settings =
     (let limiter_thr = dget (- 1) (limiter_threshold settings)
      in if level_gt (max_dBFS audio) limiter_thr then
           (case max_dBFS audio of
              Level d \<Rightarrow> apply_gain audio (Level (- (d - limiter_thr)))
            | MinusInf \<Rightarrow> audio)
         else audio)"

definition apply_mastering :: "effects \<Rightarrow> audio \<Rightarrow> profile_settings \<Rightarrow> audio" where
  "apply_mastering L audio settings = limiter (pre_limiter L audio settings) settings"

subsection \<open>Loudness\<close>

text \<open>\<^verbatim>\<open>np.mean\<close>: not a number (\<open>None\<close>) on no value.\<close>

definition np_mean :: "real list \<Rightarrow> real option" where
  "np_mean xs = (if xs = [] then None else Some (sum_list xs / real (length xs)))"

text \<open>The root mean square of lines 214 to 221; \<open>None\<close> is not a number.\<close>

definition rms_of :: "audio \<Rightarrow> real option" where
  "rms_of audio =
     (let max_val = 2 ^ (sample_width audio * 8 - 1);
          normed = map (\<lambda>s. real_of_int s / max_val) (samples audio)
      in map_option sqrt (np_mean (map (\<lambda>x. x ^ 2) normed)))"

text \<open>\<^verbatim>\<open>rms > 0\<close> is false on not a number.\<close>

definition calculate_lufs :: "audio \<Rightarrow> real" where
  "calculate_lufs audio =
     (let lufs = (case rms_of audio of
                    Some rms \<Rightarrow> if 0 < rms then 20 * log 10 rms - 691 / 1000 else - 70
                  | None \<Rightarrow> - 70)
      in py_round1 lufs)"

subsection \<open>The request\<close>

record master_result =
  output_url :: string
  duration :: real
  peak_db :: level
  lufs :: real

text \<open>
  \<^verbatim>\<open>process\<close>. \<open>tmpdir\<close> is the name of the temporary directory; without a storage the
  result names the local file.
\<close>

definition process ::
  "effects \<Rightarrow> storage option \<Rightarrow> string \<Rightarrow> string list \<Rightarrow> mix_setting list \<Rightarrow> string \<Rightarrow>
   vocal_take list \<Rightarrow> string \<Rightarrow> error + master_result" where
  "process L st tmpdir stem_urls mix_settings profile vocal_takes output_key =
     (case select_profile profile of
        None \<Rightarrow> Inl (KeyError profile)
      | Some prof \<Rightarrow>
          (case download_stems st stem_urls of
             Inl e \<Rightarrow> Inl e
           | Inr stems \<Rightarrow>
               (case mix_stems L stems mix_settings of
                  Inl e \<Rightarrow> Inl e
                | Inr mixed \<Rightarrow>
                    (case add_vocals L st mixed vocal_takes of
                       Inl e \<Rightarrow> Inl e
                     | Inr mixed' \<Rightarrow>
                         let mastered = apply_mastering L mixed' prof;
                             res = \<lparr>output_url = tmpdir @ ''/master.wav'',
                                    duration = real (len_ms mastered) / 1000,
                                    peak_db = max_dBFS mastered,
                                    lufs = calculate_lufs mastered\<rparr>
                         in (case st of
                               None \<Rightarrow> Inr res
                             | Some s \<Rightarrow>
                                 (case upload_file s output_key mastered of
                                    Inl e \<Rightarrow> Inl e
                                  | Inr u \<Rightarrow> Inr (res\<lparr>output_url := u\<rparr>)))))))"

subsection \<open>Sample inputs\<close>

text \<open>Twelve frames (one millisecond) of a loud mono signal at the rate of \<open>silent\<close>.\<close>

definition click :: audio where
  "click = \<lparr>sample_width = 2, frame_rate = 11025, channels = 1, samples = replicate 12 30000\<rparr>"

text \<open>A vocal take with every key of the request model.\<close>

definition lead_take :: vocal_take where
  "lead_take = \<lparr>url = Some ''https://cdn.example/takes/lead.wav'', take_volume = Some 1\<rparr>"

text \<open>
  Mono stems at the rate and width of \<open>silent\<close>: a tone at half of full scale over 2000
  frames; the same tone over 1000 frames; 2000 frames of silence.
\<close>

definition long_tone :: audio where
  "long_tone = \<lparr>sample_width = 2, frame_rate = 11025, channels = 1, samples = replicate 2000 16384\<rparr>"


definition silence_b :: audio where
  "silence_b = \<lparr>sample_width = 2, frame_rate = 11025, channels = 1, samples = replicate 2000 0\<rparr>"


text \<open>The entry of a stem at volume 1.0, pan 0, neither muted nor soloed.\<close>

definition unity :: mix_setting where
  "unity = \<lparr>volume = Some 1, pan = Some 0, mute = Some False, solo = Some False\<rparr>"

text \<open>Entries of a muted stem, of a soloed stem, and of a stem at half volume.\<close>

definition muted :: mix_setting where
  "muted = \<lparr>volume = Some 1, pan = Some 0, mute = Some True, solo = Some False\<rparr>"

definition soloed :: mix_setting where
  "soloed = \<lparr>volume = Some 1, pan = Some 0, mute = Some False, solo = Some True\<rparr>"


text \<open>
  A storage with two vocal takes behind it, a short one (the click) and a long one (the tone
  over 2000 frames).
\<close>

definition shelf :: storage where
  "shelf =
     \<lparr>fetch = (\<lambda>u. if u = ''takes/short.wav'' then Inr click
                   else if u = ''takes/long.wav'' then Inr long_tone
                   else Inl (StorageFailure ''404 Not Found'')),
      upload_file = (\<lambda>key a. Inr (''https://cdn.example/'' @ key))\<rparr>"

definition short_take :: vocal_take where
  "short_take = \<lparr>url = Some ''takes/short.wav'', take_volume = Some 1\<rparr>"

definition long_take :: vocal_take where
  "long_take = \<lparr>url = Some ''takes/long.wav'', take_volume = Some 1\<rparr>"

text \<open>One mono frame at the smallest magnitude, far under every compression threshold.\<close>

definition quiet :: audio where
  "quiet = \<lparr>sample_width = 2, frame_rate = 44100, channels = 1, samples = [- 1]\<rparr>"


subsection \<open>The combination of takes in the words of the specification\<close>

text \<open>
  These three definitions are not taken from the source: they say what the specification says
  of \<^verbatim>\<open>combineVocals\<close>, to be compared with \<open>load_vocals\<close>. \<open>overlay_all L base xs\<close> overlays
  the segments \<open>xs\<close> onto the base in their order; \<open>decodes_to s t v\<close> holds when the take
  \<open>t\<close> has a URL behind which the storage \<open>s\<close> has the segment \<open>v\<close>; \<open>with_gain t v\<close> is
  \<open>v\<close> with the volume of \<open>t\<close> applied.
\<close>

fun overlay_all :: "effects \<Rightarrow> audio \<Rightarrow> audio list \<Rightarrow> error + audio" where
  "overlay_all L base [] = Inr base"
| "overlay_all L base (x # xs) =
     (case overlay L base x of Inl e \<Rightarrow> Inl e | Inr base' \<Rightarrow> overlay_all L base' xs)"

definition decodes_to :: "storage \<Rightarrow> vocal_take \<Rightarrow> audio \<Rightarrow> bool" where
  "decodes_to s t v = (case url t of None \<Rightarrow> False | Some u \<Rightarrow> fetch s u = Inr v)"

definition with_gain :: "vocal_take \<Rightarrow> audio \<Rightarrow> audio" where
  "with_gain t v = apply_volume (take_volume t) v"

subsection \<open>The root mean square in the words of the specification\<close>


section \<open>Errors of the library stay apart from the service's own\<close>

lemma set_channels_error: "set_channels c a = Inl e \<Longrightarrow> \<exists>m. e = PydubFailure m"
  by (auto simp: set_channels_def split: if_splits)

lemma conform_error: "conform L c r w a = Inl e \<Longrightarrow> \<exists>m. e = PydubFailure m"
  by (auto simp: conform_def split: sum.splits dest: set_channels_error)

lemma slice_from_start_error: "slice_from_start a = Inl e \<Longrightarrow> \<exists>m. e = PydubFailure m"
  by (auto simp: slice_from_start_def Let_def split: if_splits)

lemma overlay_error: "overlay L a b = Inl e \<Longrightarrow> \<exists>m. e = PydubFailure m"
  by (auto simp: overlay_def Let_def split: sum.splits
      dest: conform_error slice_from_start_error)

lemma prepare_stem_error: "prepare_stem L s a = Inl e \<Longrightarrow> \<exists>m. e = PydubFailure m"
  by (auto simp: prepare_stem_def apply_pan_def Let_def split: if_splits sum.splits)

lemma mix_loop_error:
  "mix_loop L hs ms i stems mixed = Inl e \<Longrightarrow> \<exists>m. e = PydubFailure m"
proof (induction stems arbitrary: i mixed)
  case Nil
  then show ?case by simp
next
  case (Cons stem rest)
  show ?case
  proof (cases "skipped hs (setting_at ms i)")
    case True
    with Cons show ?thesis by simp
  next
    case False
    with Cons.prems Cons.IH show ?thesis
      by (auto simp: Let_def split: sum.splits dest: prepare_stem_error overlay_error)
  qed
qed

text \<open>
  Claim C9. \<^verbatim>\<open>_mix_stems\<close> ends with its own error, the \<^verbatim>\<open>ValueError("No stems provided")\<close>,
  when and only when the list of stems is empty. On a list that is not empty the only errors
  are those the audio library raises (the panner on an amount outside its range, the channel
  conversion on layouts it does not support), which are values of \<open>PydubFailure\<close>.
\<close>

theorem mix_stems_no_stems_iff:
  "mix_stems L stems mix_settings = Inl NoStemsProvided \<longleftrightarrow> stems = []"
proof
  assume "mix_stems L stems mix_settings = Inl NoStemsProvided"
  then show "stems = []"
    by (auto simp: mix_stems_def split: if_splits dest: mix_loop_error)
next
  assume "stems = []"
  then show "mix_stems L stems mix_settings = Inl NoStemsProvided"
    by (simp add: mix_stems_def)
qed

theorem mix_stems_no_stems_iff_witness:
  "mix_stems bypass [] [no_setting] = Inl NoStemsProvided
 \<and> mix_stems bypass [click] [] \<noteq> Inl NoStemsProvided"
  using mix_stems_no_stems_iff [of bypass "[]" "[no_setting]"]
    mix_stems_no_stems_iff [of bypass "[click]" "[]"]
  by simp

section \<open>Profiles\<close>

lemma select_profile_known:
  "select_profile profile =
     (if profile = ''warm'' then Some warm_profile
      else if profile = ''loud'' then Some loud_profile
      else Some clean_profile)"
  by (simp add: select_profile_def PROFILES_def dom_def)

text \<open>
  Claim C2. A profile name that is none of \<^verbatim>\<open>clean\<close>, \<^verbatim>\<open>warm\<close>, \<^verbatim>\<open>loud\<close> selects the settings
  of \<^verbatim>\<open>clean\<close>: the lookup raises nothing, and the whole request gives what it gives under
  the name \<^verbatim>\<open>clean\<close>, with the same stems, settings, takes, storage and effects.
\<close>

theorem unknown_profile_is_clean:
  assumes "profile \<notin> {''clean'', ''warm'', ''loud''}"
  shows "select_profile profile = Some clean_profile
       \<and> select_profile profile = select_profile ''clean''
       \<and> process L st tmpdir stem_urls mix_settings profile vocal_takes output_key
         = process L st tmpdir stem_urls mix_settings ''clean'' vocal_takes output_key"
  using assms by (simp add: select_profile_known process_def)

theorem unknown_profile_is_clean_witness:
  "select_profile ''disco'' = Some clean_profile
 \<and> select_profile ''disco'' = select_profile ''clean''
 \<and> process bypass None ''/tmp/job'' [] [] ''disco'' [] ''out.wav''
   = process bypass None ''/tmp/job'' [] [] ''clean'' [] ''out.wav''"
  using unknown_profile_is_clean [of "''disco''" bypass None "''/tmp/job''" "[]" "[]" "[]" "''out.wav''"]
  by (simp add: select_profile_known)

section \<open>Vocal takes without a storage\<close>

lemma download_stems_no_storage:
  "download_stems None urls = (if urls = [] then Inr [] else Inl NoStorage)"
  by (cases urls) simp_all

text \<open>
  Without a storage no request returns a result: the first stem download raises, and without
  stem URLs the empty list of stems is refused.
\<close>

lemma process_no_storage:
  "process L None tmpdir stem_urls mix_settings profile vocal_takes output_key =
     (if stem_urls = [] then Inl NoStemsProvided else Inl NoStorage)"
  by (simp add: process_def select_profile_known download_stems_no_storage mix_stems_def)

text \<open>
  Claim C10, as the claim states it: without a storage the vocal step is skipped and the
  request goes on with the mix of the stems. It does not: a request with one stem URL and one
  take, on a service without a storage, ends with the \<^verbatim>\<open>AttributeError\<close> of the stem
  download, before any mixing.
\<close>

theorem no_storage_request_counterexample:
  "process bypass None ''/tmp/job'' [''https://cdn.example/stems/drums.wav''] [] ''clean''
     [lead_take] ''out.wav'' = Inl NoStorage"
  by (simp add: process_no_storage)

text \<open>
  Claim C10, amended. For every list of vocal takes that is not empty, on a service without a
  storage \<^verbatim>\<open>_load_vocals\<close> returns \<^verbatim>\<open>None\<close> and raises nothing, and the vocal step of
  \<^verbatim>\<open>process\<close> (lines 81 to 84) returns the mix it was given, unchanged.
\<close>

theorem no_storage_skips_vocals:
  assumes "vocal_takes \<noteq> []"
  shows "load_vocals L None vocal_takes = Inr None
       \<and> add_vocals L None mixed vocal_takes = Inr mixed"
  using assms by (simp add: load_vocals_def add_vocals_def)

theorem no_storage_skips_vocals_witness:
  "[lead_take] \<noteq> []
 \<and> load_vocals bypass None [lead_take] = Inr None
 \<and> add_vocals bypass None click [lead_take] = Inr click"
  using no_storage_skips_vocals [of "[lead_take]" bypass click]
  by simp

section \<open>Overlay and the length of the mix\<close>

lemma length_concat_replicate: "length (concat (map (replicate c) xs)) = length xs * c"
  by (induction xs) simp_all

lemma set_channels_up:
  assumes "set_channels c a = Inr a'" "channels a \<le> c" "0 < channels a"
    "length (samples a) = N * channels a"
  shows "length (samples a') = N * channels a' \<and> channels a' = c
       \<and> frame_rate a' = frame_rate a \<and> sample_width a' = sample_width a"
  using assms
  by (auto simp: set_channels_def length_concat_replicate split: if_splits)

lemma conform_same:
  "conform L (channels a) (frame_rate a) (sample_width a) a = Inr a"
  by (simp add: conform_def set_channels_def set_frame_rate_def set_sample_width_def)

lemma conform_format:
  assumes "conform L c r w a = Inr a'"
  shows "frame_rate a' = r \<and> sample_width a' = w"
  using assms
  by (auto simp: conform_def set_frame_rate_def set_sample_width_def split: sum.splits if_splits)

lemma conform_up:
  assumes "conform L c (frame_rate a) w a = Inr a'" "channels a \<le> c" "0 < channels a"
    "length (samples a) = N * channels a"
  shows "length (samples a') = N * channels a' \<and> channels a' = c"
proof -
  from assms(1) obtain b where b: "set_channels c a = Inr b"
    and a': "a' = set_sample_width w (set_frame_rate L (frame_rate a) b)"
    by (auto simp: conform_def split: sum.splits)
  from set_channels_up[OF b assms(2,3,4)]
  have "length (samples b) = N * channels b" "channels b = c" "frame_rate b = frame_rate a"
    by auto
  then show ?thesis
    by (simp add: a' set_frame_rate_def set_sample_width_def)
qed

lemma py_round_below:
  assumes "of_int m - 1 / 2 < x" "x \<le> of_int m"
  shows "py_round x = m"
proof (cases "x = of_int m")
  case True
  then show ?thesis by (simp add: py_round_def)
next
  case False
  with assms have lt: "x < of_int m" by simp
  have fl: "\<lfloor>x\<rfloor> = m - 1"
    using assms lt by (intro floor_unique) auto
  have "1 / 2 < x - of_int (m - 1)" using assms by simp
  then show ?thesis
    by (simp add: py_round_def fl Let_def)
qed

text \<open>The silence of \<open>d\<close> milliseconds is \<open>d\<close> milliseconds long.\<close>

lemma len_ms_silent: "len_ms (silent d) = d"
proof -
  let ?n = "\<lfloor>11025 * (real d / 1000)\<rfloor>"
  have nn: "0 \<le> ?n" by simp
  have up: "of_int ?n \<le> 11025 * (real d / 1000)" by (rule of_int_floor_le)
  have lo: "11025 * (real d / 1000) - 1 < of_int ?n" by linarith
  have fc: "frame_count (silent d) = nat ?n"
    by (simp add: frame_count_def silent_def)
  have "py_round (1000 * (real (nat ?n) / 11025)) = int d"
  proof (rule py_round_below)
    show "of_int (int d) - 1 / 2 < 1000 * (real (nat ?n) / 11025)"
      using lo nn by (simp add: field_simps)
    show "1000 * (real (nat ?n) / 11025) \<le> of_int (int d)"
      using up nn by (simp add: field_simps)
  qed
  moreover have fr: "frame_rate (silent d) = 11025" by (simp add: silent_def)
  ultimately show ?thesis
    unfolding len_ms_def fc fr by simp
qed


text \<open>Slicing a segment of whole milliseconds from 0 gives its data.\<close>

lemma slice_whole_ms: "whole_ms a \<Longrightarrow> slice_from_start a = Inr (samples a)"
  by (simp add: whole_ms_def slice_from_start_def Let_def)

text \<open>
  What the length in milliseconds and \<open>whole_ms\<close> read of a segment: the number of samples,
  the channels and the rate.
\<close>

lemma same_shape:
  assumes "length (samples r) = length (samples a)" "channels r = channels a"
    "frame_rate r = frame_rate a"
  shows "frame_count r = frame_count a \<and> len_ms r = len_ms a \<and> whole_ms r = whole_ms a"
  using assms by (simp add: frame_count_def len_ms_def whole_ms_def)

lemma whole_ms_frames:
  assumes "whole_ms a" "0 < channels a"
  shows "frame_count a = nat \<lfloor>real (len_ms a) * (real (frame_rate a) / 1000)\<rfloor>"
  using assms by (simp add: whole_ms_def frame_count_def)

text \<open>
  Bringing a segment to more channels and another width, at its own rate, keeps its frames.
\<close>

lemma conform_keeps:
  assumes c: "conform L c (frame_rate a) w a = Inr a'" and le: "channels a \<le> c"
    and ch: "0 < channels a" and dv: "channels a dvd length (samples a)"
  shows "frame_count a' = frame_count a \<and> frame_rate a' = frame_rate a \<and> 0 < channels a'
       \<and> channels a' dvd length (samples a') \<and> len_ms a' = len_ms a
       \<and> (whole_ms a \<longrightarrow> whole_ms a')"
proof -
  from dv have N: "length (samples a) = frame_count a * channels a"
    by (simp add: frame_count_def)
  from conform_up[OF c le ch N] have l: "length (samples a') = frame_count a * channels a'"
    and c': "channels a' = c" by simp_all
  from conform_format[OF c] have r: "frame_rate a' = frame_rate a" by simp
  from le ch c' have pos: "0 < channels a'" by simp
  from l pos have fc: "frame_count a' = frame_count a" by (simp add: frame_count_def)
  from fc r have len: "len_ms a' = len_ms a" by (simp add: len_ms_def)
  have "whole_ms a'" if w: "whole_ms a"
    using whole_ms_frames[OF w ch] l len r by (simp add: whole_ms_def)
  with fc r pos l len show ?thesis by simp
qed

text \<open>
  Above 2000 Hz a millisecond is more than two frames: the slice of a segment from 0 holds the
  frames of its whole milliseconds, and a segment of that many frames is as long.
\<close>

lemma slice_fast_rate:
  assumes ch: "0 < channels a" and dv: "channels a dvd length (samples a)"
    and fast: "2000 < frame_rate a"
  obtains xs where "slice_from_start a = Inr xs"
    and "\<And>r. length (samples r) = length xs \<Longrightarrow> channels r = channels a
            \<Longrightarrow> frame_rate r = frame_rate a \<Longrightarrow> len_ms r = len_ms a \<and> whole_ms r"
proof -
  let ?c = "channels a" and ?R = "real (frame_rate a)"
  let ?n = "frame_count a" and ?Lm = "len_ms a"
  let ?F = "nat \<lfloor>real ?Lm * (?R / 1000)\<rfloor>"
  let ?data = "take (?F * ?c) (samples a)"
  let ?missing = "(?F * ?c - length ?data) div ?c"
  have R: "2000 < ?R" using fast by simp
  from dv have N: "length (samples a) = ?n * ?c" by (simp add: frame_count_def)
  have ld: "length ?data = min ?F ?n * ?c" using ch by (auto simp: N min_def)
  have "?F * ?c - length ?data = (?F - min ?F ?n) * ?c"
    unfolding ld by (simp add: diff_mult_distrib)
  then have "?missing = ?F - min ?F ?n" using ch by simp
  then have miss: "?missing = ?F - ?n" by (simp add: min_def)
  txt \<open>The length in milliseconds is within half a millisecond of the duration.\<close>
  have near: "\<bar>real ?Lm - 1000 * (real ?n / ?R)\<bar> \<le> 1 / 2"
  proof -
    let ?x = "1000 * (real ?n / ?R)"
    have x0: "0 \<le> ?x" by simp
    have pr: "\<bar>of_int (py_round ?x) - ?x\<bar> \<le> 1 / 2"
    proof -
      have "of_int \<lfloor>?x\<rfloor> \<le> ?x" "?x < of_int \<lfloor>?x\<rfloor> + 1" by linarith+
      then show ?thesis by (auto simp: py_round_def Let_def)
    qed
    have "0 \<le> py_round ?x"
    proof -
      have "0 \<le> \<lfloor>?x\<rfloor>" using x0 by simp
      then show ?thesis by (auto simp: py_round_def Let_def)
    qed
    then have "real ?Lm = of_int (py_round ?x)" by (simp add: len_ms_def)
    with pr show ?thesis by simp
  qed
  have Fle: "real ?F \<le> real ?Lm * (?R / 1000)"
  proof -
    have "0 \<le> real ?Lm * (?R / 1000)" by simp
    then have "real ?F = of_int \<lfloor>real ?Lm * (?R / 1000)\<rfloor>" by simp
    then show ?thesis by linarith
  qed
  have Fgt: "real ?Lm * (?R / 1000) - 1 < real ?F"
  proof -
    have "0 \<le> real ?Lm * (?R / 1000)" by simp
    then have "real ?F = of_int \<lfloor>real ?Lm * (?R / 1000)\<rfloor>" by simp
    then show ?thesis by linarith
  qed
  txt \<open>At most half a millisecond of frames is missing.\<close>
  have few: "real ?F - real ?n \<le> ?R / 2000"
  proof -
    from near have "real ?Lm \<le> 1000 * (real ?n / ?R) + 1 / 2" by linarith
    then have "real ?Lm * (?R / 1000) \<le> (1000 * (real ?n / ?R) + 1 / 2) * (?R / 1000)"
      using R by (intro mult_right_mono) simp_all
    also have "\<dots> = real ?n + ?R / 2000" using R by (simp add: field_simps)
    finally show ?thesis using Fle by linarith
  qed
  have no_raise: "\<not> 2 * (?R / 1000) < real ?missing"
  proof -
    have "real ?missing \<le> max 0 (real ?F - real ?n)" unfolding miss by simp
    also have "\<dots> \<le> ?R / 2000"
    proof -
      have "0 \<le> ?R / 2000" by simp
      with few show ?thesis by linarith
    qed
    also have "\<dots> \<le> 2 * (?R / 1000)" using R by simp
    finally show ?thesis by simp
  qed
  define xs where "xs = (if ?F - ?n \<noteq> 0
      then ?data @ concat (replicate (?F - ?n) (replicate (length (take ?c ?data)) 0))
      else ?data)"
  have sl: "slice_from_start a = Inr xs"
    unfolding slice_from_start_def Let_def miss xs_def using no_raise[unfolded miss] by simp
  have lx: "length xs = ?F * ?c"
  proof (cases "?F \<le> ?n")
    case True
    then have "?F * ?c \<le> ?n * ?c" by simp
    with True show ?thesis by (simp add: xs_def N)
  next
    case False
    then have lt: "?n < ?F" by simp
    have "?n \<noteq> 0"
    proof
      assume z: "?n = 0"
      then have "?Lm = 0" by (simp add: len_ms_def py_round_def)
      with lt show False by simp
    qed
    then have "?c \<le> min ?F ?n * ?c" using lt ch by (simp add: min_def)
    then have "?c \<le> length ?data" unfolding ld .
    then have one: "length (take ?c ?data) = ?c" by simp
    have pad: "length (concat (replicate (?F - ?n) (replicate ?c (0::int)))) = (?F - ?n) * ?c"
      by (simp add: length_concat comp_def sum_list_replicate)
    have "xs = ?data @ concat (replicate (?F - ?n) (replicate (length (take ?c ?data)) 0))"
      using lt by (simp add: xs_def)
    then have "length xs = length ?data
        + length (concat (replicate (?F - ?n) (replicate (length (take ?c ?data)) (0::int))))"
      by (simp only: length_append)
    also have "\<dots> = min ?F ?n * ?c + (?F - ?n) * ?c"
      unfolding one pad ld ..
    finally show ?thesis using lt by (simp add: min_def add_mult_distrib[symmetric])
  qed
  have shape: "len_ms r = len_ms a \<and> whole_ms r"
    if l: "length (samples r) = length xs" and c: "channels r = channels a"
      and fr: "frame_rate r = frame_rate a" for r
  proof -
    have fc: "frame_count r = ?F" using l c ch by (simp add: frame_count_def lx)
    have "py_round (1000 * (real ?F / ?R)) = int ?Lm"
    proof (rule py_round_below)
      have "1000 / ?R < 1 / 2" using R by (simp add: field_simps)
      moreover have "(real ?Lm * (?R / 1000) - 1) * (1000 / ?R) < real ?F * (1000 / ?R)"
        using Fgt R by (intro mult_strict_right_mono) simp_all
      then have "real ?Lm - 1000 / ?R < 1000 * (real ?F / ?R)"
        using R by (simp add: field_simps)
      ultimately show "of_int (int ?Lm) - 1 / 2 < 1000 * (real ?F / ?R)" by simp
      have "real ?F * (1000 / ?R) \<le> real ?Lm * (?R / 1000) * (1000 / ?R)"
        using Fle R by (intro mult_right_mono) simp_all
      then show "1000 * (real ?F / ?R) \<le> of_int (int ?Lm)"
        using R by (simp add: field_simps)
    qed
    then have len: "len_ms r = ?Lm" by (simp add: len_ms_def fc fr)
    then show ?thesis by (simp add: whole_ms_def l lx c fr)
  qed
  from sl shape show ?thesis by (rule that)
qed

text \<open>The result of an overlay has the format of the conformed \<open>self\<close> and the length of its slice.\<close>

lemma overlay_result:
  assumes "overlay L a b = Inr r"
  obtains a' d1 where
    "conform L (max (channels a) (channels b)) (max (frame_rate a) (frame_rate b))
      (max (sample_width a) (sample_width b)) a = Inr a'"
    and "slice_from_start a' = Inr d1"
    and "length (samples r) = length d1" and "channels r = channels a'"
    and "frame_rate r = frame_rate a'" and "sample_width r = sample_width a'"
  using assms
  by (auto simp: overlay_def Let_def split: sum.splits if_splits)

text \<open>
  Overlaying a segment of no higher rate onto a segment of whole milliseconds keeps the
  frames, the rate and the length of the latter.
\<close>

lemma overlay_frames:
  assumes ov: "overlay L a b = Inr r" and rate: "frame_rate b \<le> frame_rate a"
    and ch: "0 < channels a" and w: "whole_ms a"
  shows "whole_ms r \<and> 0 < channels r \<and> frame_rate r = frame_rate a
       \<and> frame_count r = frame_count a \<and> len_ms r = len_ms a"
proof -
  from ov obtain a' d1 where
    c: "conform L (max (channels a) (channels b)) (max (frame_rate a) (frame_rate b))
      (max (sample_width a) (sample_width b)) a = Inr a'"
    and sl: "slice_from_start a' = Inr d1"
    and r: "length (samples r) = length d1" "channels r = channels a'"
      "frame_rate r = frame_rate a'"
    by (rule overlay_result)
  from rate have m: "max (frame_rate a) (frame_rate b) = frame_rate a" by simp
  from c have c': "conform L (max (channels a) (channels b)) (frame_rate a)
      (max (sample_width a) (sample_width b)) a = Inr a'"
    by (simp add: m)
  from w have dv: "channels a dvd length (samples a)" by (simp add: whole_ms_def)
  from conform_keeps[OF c' _ ch dv] w
  have k: "frame_count a' = frame_count a" "frame_rate a' = frame_rate a" "0 < channels a'"
    "len_ms a' = len_ms a" "whole_ms a'" by simp_all
  from slice_whole_ms[OF k(5)] sl have "d1 = samples a'" by simp
  with r have "length (samples r) = length (samples a')" by simp
  from same_shape[OF this r(2,3)] k r show ?thesis by simp
qed

text \<open>
  Overlaying onto any segment of whole frames above 2000 Hz leaves a segment of whole
  milliseconds, of the same rate and the same length in milliseconds.
\<close>

lemma overlay_first:
  assumes ov: "overlay L a b = Inr r" and rate: "frame_rate b \<le> frame_rate a"
    and ch: "0 < channels a" and dv: "channels a dvd length (samples a)"
    and fast: "2000 < frame_rate a"
  shows "whole_ms r \<and> 0 < channels r \<and> frame_rate r = frame_rate a \<and> len_ms r = len_ms a"
proof -
  from ov obtain a' d1 where
    c: "conform L (max (channels a) (channels b)) (max (frame_rate a) (frame_rate b))
      (max (sample_width a) (sample_width b)) a = Inr a'"
    and sl: "slice_from_start a' = Inr d1"
    and r: "length (samples r) = length d1" "channels r = channels a'"
      "frame_rate r = frame_rate a'"
    by (rule overlay_result)
  from rate have m: "max (frame_rate a) (frame_rate b) = frame_rate a" by simp
  from c have c': "conform L (max (channels a) (channels b)) (frame_rate a)
      (max (sample_width a) (sample_width b)) a = Inr a'"
    by (simp add: m)
  from conform_keeps[OF c' _ ch dv]
  have k: "frame_rate a' = frame_rate a" "0 < channels a'"
    "channels a' dvd length (samples a')" "len_ms a' = len_ms a" by simp_all
  from fast k(1) have fast': "2000 < frame_rate a'" by simp
  obtain xs where xs: "slice_from_start a' = Inr xs"
    and shape: "\<And>r. length (samples r) = length xs \<Longrightarrow> channels r = channels a'
            \<Longrightarrow> frame_rate r = frame_rate a' \<Longrightarrow> len_ms r = len_ms a' \<and> whole_ms r"
    by (rule slice_fast_rate[OF k(2,3) fast']) blast
  from xs sl have "d1 = xs" by simp
  with r(1) have "length (samples r) = length xs" by simp
  from shape[OF this r(2,3)] k r show ?thesis by simp
qed

text \<open>The overlay of two segments of one format, in full.\<close>

lemma overlay_same_format_sliced:
  assumes "channels b = channels a" "frame_rate b = frame_rate a" "sample_width b = sample_width a"
    and "slice_from_start a = Inr d1"
  shows "overlay L a b =
     Inr (a\<lparr>samples :=
       map2 (audioop_add (sample_width a))
         (take (min (length d1) (length (samples b))) d1)
         (take (min (length d1) (length (samples b))) (samples b))
       @ drop (min (length d1) (length (samples b))) d1\<rparr>)"
proof -
  have "conform L (channels a) (frame_rate a) (sample_width a) b = Inr b"
    using conform_same[of L b] assms by simp
  then show ?thesis
    using assms by (simp add: overlay_def Let_def conform_same min_def)
qed


lemma fold_max_Max: "fold max xs (x::nat) = Max (insert x (set xs))"
proof (induction xs arbitrary: x)
  case Nil
  then show ?case by simp
next
  case (Cons y ys)
  have "Max (insert (max y x) (set ys)) = Max (insert x (insert y (set ys)))"
    by (cases "set ys = {}") (simp_all add: max.commute max.left_commute)
  with Cons show ?case by simp
qed

lemma max_length_Max:
  assumes "stems \<noteq> []"
  shows "max_length stems = Max (len_ms ` set stems)"
proof -
  from assms obtain s rest where "stems = s # rest" by (cases stems) auto
  then show ?thesis by (simp add: max_length_def fold_max_Max)
qed

lemma apply_volume_format:
  "frame_rate (apply_volume v a) = frame_rate a \<and> channels (apply_volume v a) = channels a
   \<and> sample_width (apply_volume v a) = sample_width a
   \<and> length (samples (apply_volume v a)) = length (samples a)"
  by (simp add: apply_volume_def apply_gain_def Let_def)



lemma frame_count_eq:
  "length (samples a) = N * channels a \<Longrightarrow> 0 < channels a \<Longrightarrow> frame_count a = N"
  by (simp add: frame_count_def)












section \<open>Vocal takes\<close>

lemma vocals_loop_not_absent: "vocals_loop L s takes (Some c) \<noteq> Inr None"
proof (induction takes arbitrary: c)
  case Nil
  then show ?case by simp
next
  case (Cons t takes)
  then show ?case
    by (auto split: option.splits sum.splits)
qed

lemma load_vocals_absent_iff:
  "load_vocals L st takes = Inr None \<longleftrightarrow> takes = [] \<or> st = None"
proof (cases "takes = [] \<or> st = None")
  case True
  then show ?thesis by (auto simp: load_vocals_def)
next
  case False
  then obtain t ts s where "takes = t # ts" "st = Some s"
    by (cases takes; cases st) auto
  then show ?thesis
    using vocals_loop_not_absent
    by (auto simp: load_vocals_def split: option.splits sum.splits)
qed

lemma vocals_loop_overlay_all:
  assumes "list_all2 (decodes_to s) takes vs"
  shows "vocals_loop L s takes (Some c) =
           map_sum id Some (overlay_all L c (map2 with_gain takes vs))"
  using assms
proof (induction takes vs arbitrary: c rule: list_all2_induct)
  case Nil
  then show ?case by simp
next
  case (Cons t takes v vs)
  from Cons.hyps(1) obtain u where u: "url t = Some u" "fetch s u = Inr v"
    by (auto simp: decodes_to_def split: option.splits)
  show ?case
    by (simp add: u with_gain_def Cons.IH split: sum.splits)
qed

lemma load_vocals_overlay_all:
  assumes "list_all2 (decodes_to s) (t # takes) (v # vs)"
  shows "load_vocals L (Some s) (t # takes) =
           map_sum id Some (overlay_all L (with_gain t v) (map2 with_gain takes vs))"
proof -
  from assms have d: "decodes_to s t v" and rest: "list_all2 (decodes_to s) takes vs"
    by simp_all
  from d obtain u where u: "url t = Some u" "fetch s u = Inr v"
    by (auto simp: decodes_to_def split: option.splits)
  show ?thesis
    by (simp add: load_vocals_def u with_gain_def[symmetric] vocals_loop_overlay_all[OF rest])
qed

lemma overlay_all_frames:
  assumes "overlay_all L base xs = Inr r" "\<forall>x\<in>set xs. frame_rate x \<le> frame_rate base"
    "0 < channels base" "whole_ms base"
  shows "frame_rate r = frame_rate base \<and> len_ms r = len_ms base
       \<and> frame_count r = frame_count base"
  using assms
proof (induction xs arbitrary: base)
  case Nil
  then show ?case by simp
next
  case (Cons x xs)
  from Cons.prems(1) obtain b' where ov: "overlay L base x = Inr b'"
    and rest: "overlay_all L b' xs = Inr r"
    by (auto split: sum.splits)
  from Cons.prems(2) have "frame_rate x \<le> frame_rate base" by simp
  from overlay_frames[OF ov this Cons.prems(3,4)]
  have inv: "whole_ms b'" "0 < channels b'" "frame_rate b' = frame_rate base"
    "frame_count b' = frame_count base" "len_ms b' = len_ms base" by auto
  from Cons.IH[OF rest _ inv(2) inv(1)] Cons.prems(2) inv(3,4,5)
  show ?case by simp
qed

text \<open>
  Onto a base of whole frames above 2000 Hz: the first overlay cuts or fills the base to its
  whole milliseconds, and the later ones keep it.
\<close>

lemma overlay_all_base:
  assumes oa: "overlay_all L base xs = Inr r"
    and rates: "\<forall>x\<in>set xs. frame_rate x \<le> frame_rate base"
    and ch: "0 < channels base" and dv: "channels base dvd length (samples base)"
    and fast: "2000 < frame_rate base"
  shows "frame_rate r = frame_rate base \<and> len_ms r = len_ms base"
proof (cases xs)
  case Nil
  with oa show ?thesis by simp
next
  case (Cons x rest)
  with oa obtain b' where ov: "overlay L base x = Inr b'"
    and re: "overlay_all L b' rest = Inr r"
    by (auto split: sum.splits)
  from rates Cons have "frame_rate x \<le> frame_rate base" by simp
  from overlay_first[OF ov this ch dv fast]
  have inv: "whole_ms b'" "0 < channels b'" "frame_rate b' = frame_rate base"
    "len_ms b' = len_ms base" by auto
  from rates Cons inv(3) have "\<forall>x\<in>set rest. frame_rate x \<le> frame_rate b'" by simp
  from overlay_all_frames[OF re this inv(2) inv(1)] inv(3,4)
  show ?thesis by simp
qed

lemma with_gain_format:
  "frame_rate (with_gain t v) = frame_rate v \<and> channels (with_gain t v) = channels v
   \<and> length (samples (with_gain t v)) = length (samples v)
   \<and> len_ms (with_gain t v) = len_ms v"
  by (simp add: with_gain_def apply_volume_format frame_count_def len_ms_def)

lemma slice_click: "slice_from_start click = Inr (replicate 11 30000)"
  by (simp add: slice_from_start_def click_def len_ms_def frame_count_def py_round_def)

lemma overlay_click_long_tone:
  "overlay L click long_tone =
     Inr \<lparr>sample_width = 2, frame_rate = 11025, channels = 1, samples = replicate 11 32767\<rparr>"
  using overlay_same_format_sliced[OF _ _ _ slice_click, of long_tone L]
  by (simp add: click_def long_tone_def audioop_add_def maxval_def minval_def)

text \<open>
  Claim C7, as the claim states it: the result is absent only for an empty list of takes, and
  a later, longer take extends the base. With no storage configured a list of one take gives
  absent as well. And with a first take of 12 frames and a second of 2000 frames the result
  has 11 frames, the whole millisecond of the first: \<^verbatim>\<open>overlay\<close> cuts the second take at the
  end of the base (and the sum of 30000 and 16384 is cut to 32767).
\<close>

theorem vocals_counterexample:
  "[lead_take] \<noteq> [] \<and> load_vocals bypass None [lead_take] = Inr None
 \<and> frame_count click = 12 \<and> frame_count long_tone = 2000
 \<and> load_vocals bypass (Some shelf) [short_take, long_take] =
     Inr (Some \<lparr>sample_width = 2, frame_rate = 11025, channels = 1,
                samples = replicate 11 32767\<rparr>)"
  by (simp add: load_vocals_def shelf_def short_take_def long_take_def apply_volume_def
      overlay_click_long_tone)
    (simp add: click_def long_tone_def frame_count_def)

text \<open>
  Claim C7, amended. \<^verbatim>\<open>_load_vocals\<close> returns absent if and only if the list of takes is empty
  or no storage is configured. With a storage, when every take has a URL that decodes, the
  volume gain of each take is applied, the first take is the base and every later take is
  overlaid onto it in input order; the result keeps the rate of the first take and its length
  in whole milliseconds (\<^verbatim>\<open>len\<close>), whenever no later take has a higher rate than the first,
  the first take holds whole frames and its rate is above 2000 Hz: a later take that is longer
  is cut at the end of the base.
\<close>

theorem vocals_combined:
  "(load_vocals L st takes = Inr None \<longleftrightarrow> takes = [] \<or> st = None)
 \<and> (list_all2 (decodes_to s) (t # ts) (v # vs) \<longrightarrow>
      load_vocals L (Some s) (t # ts) =
        map_sum id Some (overlay_all L (with_gain t v) (map2 with_gain ts vs))
    \<and> (\<forall>r. load_vocals L (Some s) (t # ts) = Inr (Some r)
          \<longrightarrow> (\<forall>x\<in>set vs. frame_rate x \<le> frame_rate v)
          \<longrightarrow> 0 < channels v \<longrightarrow> channels v dvd length (samples v)
          \<longrightarrow> 2000 < frame_rate v
          \<longrightarrow> frame_rate r = frame_rate v \<and> len_ms r = len_ms v))"
proof -
  have frames: "frame_rate r = frame_rate v \<and> len_ms r = len_ms v"
    if d: "list_all2 (decodes_to s) (t # ts) (v # vs)"
      and r: "load_vocals L (Some s) (t # ts) = Inr (Some r)"
      and rates: "\<forall>x\<in>set vs. frame_rate x \<le> frame_rate v"
      and ch: "0 < channels v" and dv: "channels v dvd length (samples v)"
      and fast: "2000 < frame_rate v" for r
  proof -
    from r load_vocals_overlay_all[OF d]
    have oa: "overlay_all L (with_gain t v) (map2 with_gain ts vs) = Inr r"
      by (cases "overlay_all L (with_gain t v) (map2 with_gain ts vs)") auto
    have rates': "\<forall>x\<in>set (map2 with_gain ts vs). frame_rate x \<le> frame_rate (with_gain t v)"
      using rates by (auto simp: with_gain_format dest!: set_zip_rightD)
    from overlay_all_base[OF oa rates'] ch dv fast
    show ?thesis
      by (simp add: with_gain_format)
  qed
  show ?thesis
    using load_vocals_absent_iff[of L st takes] load_vocals_overlay_all[of s t ts v vs L] frames
    by blast
qed

theorem vocals_combined_witness:
  "list_all2 (decodes_to shelf) [short_take, long_take] [click, long_tone]
 \<and> frame_rate long_tone \<le> frame_rate click \<and> 0 < channels click
 \<and> channels click dvd length (samples click) \<and> 2000 < frame_rate click
 \<and> load_vocals bypass (Some shelf) [short_take, long_take] \<noteq> Inr None
 \<and> load_vocals bypass (Some shelf) [short_take, long_take] =
     map_sum id Some (overlay_all bypass (with_gain short_take click)
       (map2 with_gain [long_take] [long_tone]))
 \<and> (\<exists>r. load_vocals bypass (Some shelf) [short_take, long_take] = Inr (Some r)
        \<and> frame_rate r = frame_rate click \<and> len_ms r = len_ms click)"
proof -
  have d: "list_all2 (decodes_to shelf) [short_take, long_take] [click, long_tone]"
    by (simp add: decodes_to_def shelf_def short_take_def long_take_def)
  have h: "\<forall>x\<in>set [long_tone]. frame_rate x \<le> frame_rate click" "0 < channels click"
    "channels click dvd length (samples click)" "2000 < frame_rate click"
    by (simp_all add: click_def long_tone_def)
  have r: "\<exists>r. load_vocals bypass (Some shelf) [short_take, long_take] = Inr (Some r)"
    by (simp add: load_vocals_def shelf_def short_take_def long_take_def apply_volume_def
      overlay_click_long_tone)
  note inst = vocals_combined [of bypass "Some shelf" "[short_take, long_take]" shelf short_take
      "[long_take]" click "[long_tone]"]
  from inst have "load_vocals bypass (Some shelf) [short_take, long_take] \<noteq> Inr None"
    by simp
  moreover from inst d
  have "load_vocals bypass (Some shelf) [short_take, long_take] =
     map_sum id Some (overlay_all bypass (with_gain short_take click)
       (map2 with_gain [long_take] [long_tone]))"
    by blast
  moreover from inst d h r
  have "\<exists>r. load_vocals bypass (Some shelf) [short_take, long_take] = Inr (Some r)
        \<and> frame_rate r = frame_rate click \<and> len_ms r = len_ms click"
    by blast
  ultimately show ?thesis
    using d h by simp
qed

section \<open>Mute and solo\<close>

lemma mix_loop_update:
  assumes "k < length stems" "skipped hs (setting_at ms (i + k))"
  shows "mix_loop L hs ms i (stems[k := other]) mixed = mix_loop L hs ms i stems mixed"
  using assms
proof (induction stems arbitrary: i k mixed)
  case Nil
  then show ?case by simp
next
  case (Cons stem rest)
  show ?case
  proof (cases k)
    case 0
    with Cons.prems show ?thesis by simp
  next
    case (Suc j)
    with Cons.prems have j: "j < length rest" "skipped hs (setting_at ms (Suc i + j))"
      by simp_all
    have IH: "mix_loop L hs ms (Suc i) (rest[j := other]) m = mix_loop L hs ms (Suc i) rest m"
      for m by (rule Cons.IH[OF j])
    show ?thesis
      by (simp add: Suc IH Let_def split: sum.splits)
  qed
qed

lemma mix_loop_all_skipped:
  assumes "\<forall>j<length stems. skipped hs (setting_at ms (i + j))"
  shows "mix_loop L hs ms i stems mixed = Inr mixed"
  using assms
proof (induction stems arbitrary: i)
  case Nil
  then show ?case by simp
next
  case (Cons stem rest)
  from Cons.prems have here: "skipped hs (setting_at ms i)" by force
  from Cons.prems have "\<forall>j<length rest. skipped hs (setting_at ms (Suc i + j))" by force
  from Cons.IH[OF this] here show ?case by simp
qed

lemma max_length_update:
  assumes "k < length stems" "len_ms other = len_ms (stems ! k)"
  shows "max_length (stems[k := other]) = max_length stems"
proof -
  have "map len_ms (stems[k := other]) = map len_ms stems"
    using assms by (simp add: map_update list_update_same_conv)
  then have "len_ms ` set (stems[k := other]) = len_ms ` set stems"
    by (metis list.set_map)
  moreover from assms have "stems \<noteq> []" "stems[k := other] \<noteq> []" by auto
  ultimately show ?thesis by (simp add: max_length_Max)
qed

lemma skipped_iff:
  "skipped hs s \<longleftrightarrow> dget False (mute s) \<or> (hs \<and> \<not> dget False (solo s))"
  by (simp add: skipped_def)

lemma has_solo_of_iff: "has_solo_of ms \<longleftrightarrow> (\<exists>s\<in>set ms. dget False (solo s))"
  by (simp add: has_solo_of_def list_ex_iff)

text \<open>
  Claim C4. A stem whose entry has \<^verbatim>\<open>mute\<close> true contributes nothing to the mix, and when any
  entry of the whole settings list has \<^verbatim>\<open>solo\<close> true, a stem whose own \<^verbatim>\<open>solo\<close> is false
  contributes nothing, whatever its \<^verbatim>\<open>mute\<close>: the result of \<^verbatim>\<open>_mix_stems\<close> stays the same
  (the same segment, or the same error) when such a stem is replaced by any other segment of
  the same length in milliseconds, the length being all \<^verbatim>\<open>_mix_stems\<close> reads of a stem it
  skips. So a stem contributes only if it passes both tests. And when every stem is muted, the
  mix is the silence it starts from, as long as the longest stem in milliseconds.
\<close>

theorem suppressed_stem_contributes_nothing:
  "(k < length stems
      \<and> (dget False (mute (setting_at ms k))
          \<or> ((\<exists>s\<in>set ms. dget False (solo s)) \<and> \<not> dget False (solo (setting_at ms k))))
      \<and> len_ms other = len_ms (stems ! k)
    \<longrightarrow> mix_stems L (stems[k := other]) ms = mix_stems L stems ms)
 \<and> (stems \<noteq> [] \<and> (\<forall>k<length stems. dget False (mute (setting_at ms k)))
    \<longrightarrow> mix_stems L stems ms = Inr (silent (Max (len_ms ` set stems)))
      \<and> len_ms (silent (Max (len_ms ` set stems))) = Max (len_ms ` set stems))"
proof (intro conjI impI)
  assume h: "k < length stems
      \<and> (dget False (mute (setting_at ms k))
          \<or> ((\<exists>s\<in>set ms. dget False (solo s)) \<and> \<not> dget False (solo (setting_at ms k))))
      \<and> len_ms other = len_ms (stems ! k)"
  then have sk: "skipped (has_solo_of ms) (setting_at ms (0 + k))"
    by (simp add: skipped_iff has_solo_of_iff)
  from h have ne: "stems \<noteq> []" "stems[k := other] \<noteq> []" by auto
  from h have ml: "max_length (stems[k := other]) = max_length stems"
    by (intro max_length_update) simp_all
  from h have k: "k < length stems" by simp
  show "mix_stems L (stems[k := other]) ms = mix_stems L stems ms"
    using ne by (simp add: mix_stems_def mix_start_def ml mix_loop_update[OF k sk])
next
  assume h: "stems \<noteq> [] \<and> (\<forall>k<length stems. dget False (mute (setting_at ms k)))"
  then have "\<forall>j<length stems. skipped (has_solo_of ms) (setting_at ms (0 + j))"
    by (simp add: skipped_iff)
  from mix_loop_all_skipped[OF this] h
  show "mix_stems L stems ms = Inr (silent (Max (len_ms ` set stems)))"
    by (simp add: mix_stems_def mix_start_def max_length_Max)
next
  show "len_ms (silent (Max (len_ms ` set stems))) = Max (len_ms ` set stems)"
    by (rule len_ms_silent)
qed

theorem suppressed_stem_contributes_nothing_witness:
  "dget False (mute (setting_at [muted, unity] 0))
 \<and> len_ms (silent 1) = len_ms click
 \<and> mix_stems bypass [silent 1, long_tone] [muted, unity]
     = mix_stems bypass [click, long_tone] [muted, unity]
 \<and> \<not> dget False (solo (setting_at [unity, soloed] 0))
 \<and> mix_stems bypass [silent 1, long_tone] [unity, soloed]
     = mix_stems bypass [click, long_tone] [unity, soloed]
 \<and> dget False (mute (setting_at [muted] 0))
 \<and> mix_stems bypass [click] [muted] = Inr (silent 1)"
proof -
  have l: "len_ms click = 1"
    by (simp add: click_def len_ms_def frame_count_def py_round_def)
  have m: "dget False (mute (setting_at [muted, unity] 0))"
    "dget False (mute (setting_at [muted] 0))"
    "\<not> dget False (solo (setting_at [unity, soloed] 0))"
    "\<exists>s\<in>set [unity, soloed]. dget False (solo s)"
    by (simp_all add: setting_at_def muted_def unity_def soloed_def)
  have k: "0 < length [click, long_tone]"
    "len_ms (silent 1) = len_ms ([click, long_tone] ! 0)"
    by (simp_all add: l len_ms_silent)
  have a: "mix_stems bypass ([click, long_tone][0 := silent 1]) [muted, unity]
     = mix_stems bypass [click, long_tone] [muted, unity]"
    using suppressed_stem_contributes_nothing [of 0 "[click, long_tone]" "[muted, unity]"
        "silent 1" bypass] m(1) k
    by blast
  have b: "mix_stems bypass ([click, long_tone][0 := silent 1]) [unity, soloed]
     = mix_stems bypass [click, long_tone] [unity, soloed]"
    using suppressed_stem_contributes_nothing [of 0 "[click, long_tone]" "[unity, soloed]"
        "silent 1" bypass] m(3,4) k
    by blast
  have all: "[click] \<noteq> []" "\<forall>k<length [click]. dget False (mute (setting_at [muted] k))"
    using m(2) by simp_all
  have "mix_stems bypass [click] [muted] = Inr (silent (Max (len_ms ` set [click])))"
    using suppressed_stem_contributes_nothing [of 0 "[click]" "[muted]" click bypass] all
    by blast
  then have c: "mix_stems bypass [click] [muted] = Inr (silent 1)"
    by (simp add: l)
  from a b c m show ?thesis
    by (simp add: l len_ms_silent)
qed

section \<open>Settings and volume\<close>









section \<open>Loudness\<close>












section \<open>The limiter\<close>

lemma minval_le_maxval: "minval w \<le> 0 \<and> 0 \<le> maxval w"
  by (simp add: minval_def maxval_def)

lemma fbound_floor_in_range: "minval w \<le> fbound_floor w x \<and> fbound_floor w x \<le> maxval w"
proof -
  have "minval w \<le> maxval w" using minval_le_maxval[of w] by simp
  moreover have "\<lfloor>x\<rfloor> \<le> maxval w" if "x \<le> of_int (maxval w)"
    using that by (simp add: floor_le_iff)
  moreover have "minval w \<le> \<lfloor>x\<rfloor>" if "of_int (minval w) + 1 \<le> x"
    using that by (simp add: le_floor_iff)
  ultimately show ?thesis
    by (auto simp: fbound_floor_def not_less)
qed

lemma fbound_floor_floor:
  assumes "of_int (minval w) \<le> x" "x \<le> of_int (maxval w)"
  shows "fbound_floor w x = \<lfloor>x\<rfloor>"
proof (cases "x < of_int (minval w) + 1")
  case True
  with assms(1) have "\<lfloor>x\<rfloor> = minval w"
    by (intro floor_unique) simp_all
  with True assms(2) show ?thesis by (simp add: fbound_floor_def)
next
  case False
  with assms(2) show ?thesis by (simp add: fbound_floor_def)
qed

lemma audioop_max_nonneg: "0 \<le> audioop_max xs"
  by (induction xs) simp_all

lemma audioop_max_ge: "s \<in> set xs \<Longrightarrow> \<bar>s\<bar> \<le> audioop_max xs"
  by (induction xs) auto

lemma audioop_max_attained: "0 < audioop_max xs \<Longrightarrow> \<exists>s\<in>set xs. \<bar>s\<bar> = audioop_max xs"
proof (induction xs)
  case Nil
  then show ?case by simp
next
  case (Cons x xs)
  show ?case
  proof (cases "audioop_max xs \<le> \<bar>x\<bar>")
    case True
    then show ?thesis by (simp add: max_def)
  next
    case False
    then have "audioop_max (x # xs) = audioop_max xs" by (simp add: max_def)
    with Cons show ?thesis by auto
  qed
qed

lemma audioop_max_less:
  assumes "\<forall>s\<in>set xs. real_of_int \<bar>s\<bar> < b" "0 < b"
  shows "real_of_int (audioop_max xs) < b"
  using assms by (induction xs) (simp_all add: max_def)

lemma audioop_max_zero: "audioop_max xs = 0 \<Longrightarrow> \<forall>s\<in>set xs. s = 0"
  using audioop_max_ge[of _ xs] by fastforce

lemma apply_gain_in_range:
  "\<forall>s\<in>set (samples (apply_gain a g)).
     minval (sample_width (apply_gain a g)) \<le> s \<and> s \<le> maxval (sample_width (apply_gain a g))"
  by (auto simp: apply_gain_def audioop_mul_def fbound_floor_in_range)

lemma normalize_in_range:
  "\<forall>s\<in>set (samples (normalize a)).
     minval (sample_width (normalize a)) \<le> s \<and> s \<le> maxval (sample_width (normalize a))"
proof (cases "audioop_max (samples a) = 0")
  case True
  then have "normalize a = a" by (simp add: normalize_def)
  with audioop_max_zero[OF True] minval_le_maxval show ?thesis by auto
next
  case False
  then obtain g where "normalize a = apply_gain a g"
    by (simp add: normalize_def Let_def)
  with apply_gain_in_range show ?thesis by simp
qed

lemma max_possible_amplitude_pos: "0 < max_possible_amplitude a"
  by (simp add: max_possible_amplitude_def)

lemma max_dBFS_Level:
  assumes "max_dBFS a = Level d"
  shows "0 < audioop_max (samples a)
       \<and> d = 20 * log 10 (real_of_int (audioop_max (samples a)) / max_possible_amplitude a)"
proof -
  from assms have "audioop_max (samples a) \<noteq> 0"
    and d: "d = 20 * log 10 (real_of_int (audioop_max (samples a)) / max_possible_amplitude a)"
    using max_possible_amplitude_pos[of a]
    by (auto simp: max_dBFS_def ratio_to_db_def split: if_splits)
  with audioop_max_nonneg[of "samples a"] show ?thesis by simp
qed

text \<open>The factor of the limiter's gain: the amplitude of the threshold over the peak.\<close>

lemma limiter_factor:
  assumes "max_dBFS a = Level d"
  shows "db_to_float (Level (- (d - thr)))
       = max_possible_amplitude a * 10 powr (thr / 20) / real_of_int (audioop_max (samples a))"
proof -
  let ?p = "real_of_int (audioop_max (samples a))" and ?M = "max_possible_amplitude a"
  from max_dBFS_Level[OF assms] have p: "0 < ?p" and d: "d = 20 * log 10 (?p / ?M)" by simp_all
  have M: "0 < ?M" by (rule max_possible_amplitude_pos)
  have "10 powr (d / 20) = ?p / ?M"
    using p M by (simp add: d powr_log_cancel)
  moreover have "10 powr ((thr - d) / 20) = 10 powr (thr / 20) / 10 powr (d / 20)"
    by (simp add: powr_diff diff_divide_distrib)
  ultimately have "10 powr ((thr - d) / 20) = 10 powr (thr / 20) / (?p / ?M)"
    by (simp only:)
  also have "\<dots> = ?M * 10 powr (thr / 20) / ?p"
    by simp
  finally show ?thesis by simp
qed

lemma floor_abs_bounds: "\<bar>x\<bar> - 1 < real_of_int \<bar>\<lfloor>x\<rfloor>\<bar> \<and> real_of_int \<bar>\<lfloor>x\<rfloor>\<bar> < \<bar>x\<bar> + 1"
  by linarith

lemma scale_between:
  fixes x f :: real
  assumes "0 < f" "f < 1"
  shows "min 0 x \<le> x * f \<and> x * f \<le> max 0 x"
proof (cases "0 \<le> x")
  case True
  then have "0 \<le> x * f" using assms by simp
  moreover have "x * f \<le> x * 1" using True assms by (intro mult_left_mono) simp_all
  ultimately show ?thesis using True by simp
next
  case False
  then have "x * f \<le> 0" using assms by (simp add: mult_le_0_iff)
  moreover have "x * 1 \<le> x * f" using False assms by (intro mult_left_mono_neg) simp_all
  ultimately show ?thesis using False by simp
qed

lemma limiter_gain_peak:
  assumes range: "\<forall>s\<in>set (samples a). minval (sample_width a) \<le> s \<and> s \<le> maxval (sample_width a)"
    and lev: "max_dBFS a = Level d" and gt: "thr < d"
  shows "\<bar>real_of_int (audioop_max (samples (apply_gain a (Level (- (d - thr))))))
          - max_possible_amplitude a * 10 powr (thr / 20)\<bar> < 1"
proof -
  let ?p = "audioop_max (samples a)" and ?M = "max_possible_amplitude a"
  let ?T = "?M * 10 powr (thr / 20)"
  let ?w = "sample_width a"
  define f where "f = db_to_float (Level (- (d - thr)))"
  from max_dBFS_Level[OF lev] have p: "0 < ?p" by simp
  have f: "f = ?T / real_of_int ?p" unfolding f_def by (rule limiter_factor[OF lev])
  have T: "0 < ?T" using max_possible_amplitude_pos[of a] by simp
  have f0: "0 < f" by (simp add: f_def)
  have f1: "f < 1"
  proof -
    have "10 powr (- (d - thr) / 20) < 10 powr 0"
      using gt by (intro powr_less_mono) simp_all
    then show ?thesis by (simp add: f_def)
  qed
  have pf: "real_of_int ?p * f = ?T" unfolding f using p by simp
  have out: "samples (apply_gain a (Level (- (d - thr))))
      = map (\<lambda>s. \<lfloor>real_of_int s * f\<rfloor>) (samples a)"
  proof -
    have "audioop_mul ?w f s = \<lfloor>real_of_int s * f\<rfloor>" if s: "s \<in> set (samples a)" for s
    proof -
      from range s have r: "minval ?w \<le> s" "s \<le> maxval ?w" by simp_all
      from scale_between[OF f0 f1, of "real_of_int s"]
      have b: "min 0 (real_of_int s) \<le> real_of_int s * f"
        "real_of_int s * f \<le> max 0 (real_of_int s)" by simp_all
      have "real_of_int (minval ?w) \<le> min 0 (real_of_int s)"
        using r(1) minval_le_maxval[of ?w] by simp
      with b(1) have lo: "real_of_int (minval ?w) \<le> real_of_int s * f" by linarith
      have "max 0 (real_of_int s) \<le> real_of_int (maxval ?w)"
        using r(2) minval_le_maxval[of ?w] by simp
      with b(2) have hi: "real_of_int s * f \<le> real_of_int (maxval ?w)" by linarith
      from lo hi show ?thesis
        unfolding audioop_mul_def by (rule fbound_floor_floor)
    qed
    then show ?thesis by (simp add: apply_gain_def f_def)
  qed
  have upper: "real_of_int (audioop_max (map (\<lambda>s. \<lfloor>real_of_int s * f\<rfloor>) (samples a))) < ?T + 1"
  proof (rule audioop_max_less)
    show "0 < ?T + 1" using T by simp
    show "\<forall>s\<in>set (map (\<lambda>s. \<lfloor>real_of_int s * f\<rfloor>) (samples a)). real_of_int \<bar>s\<bar> < ?T + 1"
    proof
      fix y assume "y \<in> set (map (\<lambda>s. \<lfloor>real_of_int s * f\<rfloor>) (samples a))"
      then obtain s where s: "s \<in> set (samples a)" and y: "y = \<lfloor>real_of_int s * f\<rfloor>" by auto
      from audioop_max_ge[OF s] have "real_of_int \<bar>s\<bar> \<le> real_of_int ?p" by simp
      then have "real_of_int \<bar>s\<bar> * f \<le> real_of_int ?p * f"
        using f0 by (intro mult_right_mono) simp_all
      then have "\<bar>real_of_int s * f\<bar> \<le> ?T"
        using f0 pf by (simp add: abs_mult)
      with floor_abs_bounds[of "real_of_int s * f"] show "real_of_int \<bar>y\<bar> < ?T + 1"
        unfolding y by linarith
    qed
  qed
  have lower: "?T - 1 < real_of_int (audioop_max (map (\<lambda>s. \<lfloor>real_of_int s * f\<rfloor>) (samples a)))"
  proof -
    from audioop_max_attained[OF p] obtain s where s: "s \<in> set (samples a)" and ps: "\<bar>s\<bar> = ?p"
      by auto
    have "\<bar>real_of_int s * f\<bar> = real_of_int \<bar>s\<bar> * f"
      using f0 by (simp add: abs_mult)
    then have "\<bar>real_of_int s * f\<bar> = ?T"
      using pf ps by simp
    with floor_abs_bounds[of "real_of_int s * f"]
    have "?T - 1 < real_of_int \<bar>\<lfloor>real_of_int s * f\<rfloor>\<bar>" by linarith
    moreover have "\<bar>\<lfloor>real_of_int s * f\<rfloor>\<bar>
        \<le> audioop_max (map (\<lambda>s. \<lfloor>real_of_int s * f\<rfloor>) (samples a))"
      using s by (intro audioop_max_ge) simp
    ultimately show ?thesis by linarith
  qed
  from upper lower show ?thesis unfolding out by linarith
qed

lemma no_gain_peak:
  assumes "\<not> level_gt (max_dBFS a) thr"
  shows "real_of_int (audioop_max (samples a)) \<le> max_possible_amplitude a * 10 powr (thr / 20)"
proof (cases "max_dBFS a")
  case MinusInf
  then have "audioop_max (samples a) = 0"
    using max_possible_amplitude_pos[of a]
    by (auto simp: max_dBFS_def ratio_to_db_def split: if_splits)
  then show ?thesis using max_possible_amplitude_pos[of a] by simp
next
  case (Level d)
  let ?p = "real_of_int (audioop_max (samples a))" and ?M = "max_possible_amplitude a"
  from max_dBFS_Level[OF Level] have p: "0 < ?p" and d: "d = 20 * log 10 (?p / ?M)" by simp_all
  have M: "0 < ?M" by (rule max_possible_amplitude_pos)
  from assms Level have "d \<le> thr" by simp
  then have "10 powr (d / 20) \<le> 10 powr (thr / 20)" by simp
  moreover have "10 powr (d / 20) = ?p / ?M"
    using p M by (simp add: d powr_log_cancel)
  ultimately show ?thesis using M by (simp add: field_simps)
qed


lemma pre_limiter_in_range:
  "\<forall>s\<in>set (samples (pre_limiter L a st)).
     minval (sample_width (pre_limiter L a st)) \<le> s
     \<and> s \<le> maxval (sample_width (pre_limiter L a st))"
  by (simp add: pre_limiter_def Let_def normalize_in_range)

lemma max_possible_amplitude_apply_gain:
  "max_possible_amplitude (apply_gain a g) = max_possible_amplitude a"
  by (simp add: max_possible_amplitude_def apply_gain_def)

text \<open>
  Claim C1, amended. For every input buffer, every effects of the library and every profile,
  with \<open>A\<close> the amplitude of the limiter threshold (full scale times
  \<open>10 powr (limiterThresholdDb / 20)\<close>): after the mastering chain the largest sample magnitude
  of the output is less than one quantisation step above \<open>A\<close>. Whenever the peak level after
  normalisation exceeds the threshold, a uniform gain reduction equal to the excess is applied
  (every sample is multiplied by \<open>10 powr (- excess / 20)\<close> and floored), and the final peak
  magnitude is within one quantisation step of \<open>A\<close>. Otherwise the buffer is left as it is, and
  its peak magnitude is at most \<open>A\<close>.
\<close>

theorem limiter_peak:
  fixes L :: effects and a :: audio and st :: profile_settings
  defines "post \<equiv> pre_limiter L a st"
    and "out \<equiv> apply_mastering L a st"
    and "thr \<equiv> dget (- 1) (limiter_threshold st)"
  shows "real_of_int (audioop_max (samples out)) < max_possible_amplitude out * 10 powr (thr / 20) + 1
       \<and> (level_gt (max_dBFS post) thr \<longrightarrow>
            (\<exists>d. max_dBFS post = Level d \<and> thr < d
                 \<and> out = apply_gain post (Level (- (d - thr))))
          \<and> \<bar>real_of_int (audioop_max (samples out))
               - max_possible_amplitude out * 10 powr (thr / 20)\<bar> < 1)
       \<and> (\<not> level_gt (max_dBFS post) thr \<longrightarrow>
            out = post
          \<and> real_of_int (audioop_max (samples out))
              \<le> max_possible_amplitude out * 10 powr (thr / 20))"
proof (cases "level_gt (max_dBFS post) thr")
  case True
  then obtain d where d: "max_dBFS post = Level d" "thr < d"
    by (cases "max_dBFS post") simp_all
  have o: "out = apply_gain post (Level (- (d - thr)))"
    using d by (simp add: out_def post_def thr_def apply_mastering_def limiter_def)
  have range: "\<forall>s\<in>set (samples post).
      minval (sample_width post) \<le> s \<and> s \<le> maxval (sample_width post)"
    unfolding post_def by (rule pre_limiter_in_range)
  from limiter_gain_peak[OF range d]
  have "\<bar>real_of_int (audioop_max (samples out))
          - max_possible_amplitude out * 10 powr (thr / 20)\<bar> < 1"
    by (simp add: o max_possible_amplitude_apply_gain)
  with True d o show ?thesis by auto
next
  case False
  then have o: "out = post"
    by (simp add: out_def post_def thr_def apply_mastering_def limiter_def)
  from no_gain_peak[OF False] False o show ?thesis by simp
qed

lemma root_bounds:
  fixes lo hi M :: real
  assumes "0 \<le> lo" "0 \<le> hi" "0 < M" "0 < n" "lo ^ n * 10 < M ^ n" "M ^ n < hi ^ n * 10"
  shows "lo < M * 10 powr (- (1 / real n)) \<and> M * 10 powr (- (1 / real n)) < hi"
proof -
  let ?c = "10 powr (- (1 / real n))"
  have "?c ^ n = 10 powr (real n * (- (1 / real n)))"
    by (rule powr_power) simp
  also have "real n * (- (1 / real n)) = - 1"
    using assms(4) by simp
  finally have c: "?c ^ n = 1 / 10"
    by (simp add: powr_neg_one)
  have Mc: "(M * ?c) ^ n = M ^ n / 10"
    by (simp add: power_mult_distrib c)
  have "lo ^ n < (M * ?c) ^ n" using assms(5) by (simp add: Mc)
  then have "lo < M * ?c"
    by (rule power_less_imp_less_base) (use assms(3) in simp)
  moreover have "(M * ?c) ^ n < hi ^ n" using assms(6) by (simp add: Mc)
  then have "M * ?c < hi" by (rule power_less_imp_less_base) (rule assms(2))
  ultimately show ?thesis by simp
qed

lemma c20_bounds:
  "(29204::real) < 32768 * 10 powr (- (1 / 20)) \<and> 32768 * 10 powr (- (1 / 20)) < (29205::real)"
proof -
  have "(29204::real) ^ 20 * 10 < 32768 ^ 20" "(32768::real) ^ 20 < 29205 ^ 20 * 10"
    by simp_all
  from root_bounds[OF _ _ _ _ this] show ?thesis by simp
qed

lemma c200_bounds:
  "(32392::real) < 32768 * 10 powr (- (1 / 200)) \<and> 32768 * 10 powr (- (1 / 200)) < (32393::real)"
proof -
  let ?c = "10 powr (- (1 / 200)) :: real" and ?d = "10 powr (- (1 / 20)) :: real"
  have "?c ^ 10 = 10 powr (real 10 * (- (1 / 200)))"
    by (rule powr_power) simp
  then have cd: "?c ^ 10 = ?d" by simp
  have "(8911::real) ^ 20 * 10 < 10000 ^ 20" "(10000::real) ^ 20 < (89126 / 10) ^ 20 * 10"
    by (simp_all add: power_divide)
  from root_bounds[OF _ _ _ _ this]
  have d: "8911 / 10000 < ?d" "?d < 89126 / 100000" by simp_all
  have "(32392 / 32768 :: real) ^ 10 < 8911 / 10000" by (simp add: power_divide)
  with d(1) cd have "(32392 / 32768 :: real) ^ 10 < ?c ^ 10" by simp
  then have lo: "32392 / 32768 < ?c" by (rule power_less_imp_less_base) simp
  have "(89126 / 100000 :: real) < (32393 / 32768) ^ 10" by (simp add: power_divide)
  with d(2) cd have "?c ^ 10 < (32393 / 32768 :: real) ^ 10" by simp
  then have hi: "?c < 32393 / 32768" by (rule power_less_imp_less_base) simp
  from lo hi show ?thesis by simp
qed


lemma floor_neg_between:
  fixes t :: real
  assumes "of_int n - 1 < t" "t < of_int n" "0 < n" "n \<le> 32768"
  shows "fbound_floor 2 (- t) = - n"
proof -
  have fl: "\<lfloor>- t\<rfloor> = - n" using assms by (intro floor_unique) simp_all
  have "of_int (minval 2) \<le> - t" "- t \<le> of_int (maxval 2)"
    using assms by (simp_all add: minval_def maxval_def)
  from fbound_floor_floor[OF this] fl show ?thesis by simp
qed

lemma audioop_max_silence: "audioop_max (replicate n 0) = 0"
  by (induction n) simp_all

lemma level_of_ratio:
  fixes x :: real
  assumes "0 < x"
  shows "ratio_to_db x = Level (20 * log 10 x)"
    and "level_gt (ratio_to_db x) (- 1) \<longleftrightarrow> 10 powr (- (1 / 20)) < x"
    and "ratio_to_db x = Level (- 1) \<longleftrightarrow> x = 10 powr (- (1 / 20))"
proof -
  show r: "ratio_to_db x = Level (20 * log 10 x)"
    using assms by (simp add: ratio_to_db_def)
  have "- 1 < 20 * log 10 x \<longleftrightarrow> - (1 / 20) < log 10 x" by auto
  also have "\<dots> \<longleftrightarrow> 10 powr (- (1 / 20)) < x"
    using assms by (intro less_log_iff) simp_all
  finally show "level_gt (ratio_to_db x) (- 1) \<longleftrightarrow> 10 powr (- (1 / 20)) < x"
    by (simp add: r)
  have "20 * log 10 x = - 1 \<longleftrightarrow> log 10 x = - (1 / 20)" by auto
  also have "\<dots> \<longleftrightarrow> x = 10 powr (- (1 / 20))"
    using assms by (metis log_powr_cancel powr_log_cancel one_less_numeral_iff semiring_norm(76) less_numeral_extra(4) zero_less_numeral not_less_iff_gr_or_eq)
  finally show "ratio_to_db x = Level (- 1) \<longleftrightarrow> x = 10 powr (- (1 / 20))"
    by (simp add: r)
qed

lemma normalize_quiet: "normalize quiet = quiet\<lparr>samples := [- 32393]\<rparr>"
proof -
  define t :: real where "t = 32768 * 10 powr (- (1 / 200))"
  have tb: "32392 < t" "t < 32393" using c200_bounds by (simp_all add: t_def)
  have pk: "audioop_max (samples quiet) = 1" by (simp add: quiet_def)
  have tp: "max_possible_amplitude quiet * db_to_float (Level (- (1 / 10))) = t"
    by (simp add: max_possible_amplitude_def quiet_def t_def)
  have n: "normalize quiet = apply_gain quiet (ratio_to_db (t / real_of_int 1))"
    unfolding normalize_def Let_def pk tp by simp
  have g: "db_to_float (ratio_to_db (t / real_of_int 1)) = t"
    using tb by (simp add: level_of_ratio(1) powr_log_cancel)
  have "fbound_floor 2 (- t) = - 32393"
    using floor_neg_between[of 32393 t] tb by simp
  then have "audioop_mul 2 t (- 1) = - 32393" by (simp add: audioop_mul_def)
  then show ?thesis
    unfolding n apply_gain_def g by (simp add: quiet_def)
qed

lemma pre_limiter_quiet:
  "pre_limiter bypass quiet clean_profile = quiet\<lparr>samples := [- 32393]\<rparr>"
  by (simp add: pre_limiter_def clean_profile_def bypass_def normalize_quiet)

lemma limiter_quiet:
  "limiter (quiet\<lparr>samples := [- 32393]\<rparr>) clean_profile = quiet\<lparr>samples := [- 29205]\<rparr>"
proof -
  let ?post = "quiet\<lparr>samples := [- 32393]\<rparr>"
  define T :: real where "T = 32768 * 10 powr (- (1 / 20))"
  have Tb: "29204 < T" "T < 29205" using c20_bounds by (simp_all add: T_def)
  have thr: "dget (- 1) (limiter_threshold clean_profile) = - 1"
    by (simp add: clean_profile_def)
  have m: "max_dBFS ?post = ratio_to_db (32393 / 32768)"
    by (simp add: max_dBFS_def max_possible_amplitude_def quiet_def)
  have gt: "level_gt (max_dBFS ?post) (- 1)"
    unfolding m using Tb by (subst level_of_ratio(2)) (simp_all add: T_def)
  obtain d where d: "max_dBFS ?post = Level d"
    unfolding m by (simp add: level_of_ratio(1))
  have "db_to_float (Level (- (d - (- 1))))
      = max_possible_amplitude ?post * 10 powr (- 1 / 20) / real_of_int (audioop_max (samples ?post))"
    by (rule limiter_factor[OF d])
  then have f: "db_to_float (Level (- (d - (- 1)))) = T / 32393"
    by (simp add: max_possible_amplitude_def quiet_def T_def)
  have "fbound_floor 2 (- T) = - 29205"
    using floor_neg_between[of 29205 T] Tb by simp
  then have "audioop_mul 2 (T / 32393) (- 32393) = - 29205" by (simp add: audioop_mul_def)
  then have "apply_gain ?post (Level (- (d - (- 1)))) = quiet\<lparr>samples := [- 29205]\<rparr>"
    unfolding apply_gain_def f by (simp add: quiet_def)
  with gt d show ?thesis
    by (simp add: limiter_def thr)
qed

text \<open>
  No 16 bit buffer has a peak level of exactly -1 dB, whatever produced it: its peak would be
  an integer \<open>p\<close> with \<open>10 p\<^sup>2\<^sup>0 = 32768\<^sup>2\<^sup>0\<close>, and 5 does not divide a power of 2.
\<close>

lemma peak_never_minus_one_db:
  assumes w: "sample_width a = 2"
  shows "max_dBFS a \<noteq> Level (- 1)"
proof
  assume eq: "max_dBFS a = Level (- 1)"
  let ?p = "audioop_max (samples a)"
  have M: "max_possible_amplitude a = 32768"
    by (simp add: max_possible_amplitude_def w)
  from max_dBFS_Level[OF eq] have p: "0 < ?p" by simp
  then have pos: "0 < real_of_int ?p / 32768" by simp
  from eq have "ratio_to_db (real_of_int ?p / 32768) = Level (- 1)"
    by (simp add: max_dBFS_def M)
  with level_of_ratio(3)[OF pos] have r: "real_of_int ?p / 32768 = 10 powr (- (1 / 20))"
    by simp
  have "(10 powr (- (1 / 20)) :: real) ^ 20 = 10 powr (real 20 * (- (1 / 20)))"
    by (rule powr_power) simp
  then have "(10 powr (- (1 / 20)) :: real) ^ 20 = 1 / 10"
    by (simp add: powr_neg_one)
  with r have "(real_of_int ?p / 32768) ^ 20 = 1 / 10" by simp
  then have "real_of_int (10 * ?p ^ 20) = real_of_int (32768 ^ 20)"
    by (simp add: power_divide field_simps)
  then have e: "10 * ?p ^ 20 = (32768::int) ^ 20"
    by (simp only: of_int_eq_iff)
  have "(5::int) dvd 10 * ?p ^ 20" by (rule dvd_mult2) simp
  then have "(5::int) dvd 32768 ^ 20" unfolding e .
  then show False by simp
qed

text \<open>
  Claim C1, as the claim states it: when the peak after normalisation exceeds the threshold,
  the final peak equals the threshold exactly. Samples are integers, and the gain floors them.
  Under the profile \<^verbatim>\<open>clean\<close> (no equaliser gain, threshold -1 dB), a frame at -1 is left as it
  is by a compressor that does not act under its threshold, is normalised to -32393 (0.1 dB
  under full scale) and then limited to -29205: the amplitude of -1 dB lies between 29204 and
  29205, so the final peak level is not -1 dB, and it is above -1 dB.
\<close>

theorem limiter_counterexample:
  "pre_limiter bypass quiet clean_profile = quiet\<lparr>samples := [- 32393]\<rparr>
 \<and> level_gt (max_dBFS (pre_limiter bypass quiet clean_profile))
      (dget (- 1) (limiter_threshold clean_profile))
 \<and> apply_mastering bypass quiet clean_profile = quiet\<lparr>samples := [- 29205]\<rparr>
 \<and> max_dBFS (apply_mastering bypass quiet clean_profile)
      \<noteq> Level (dget (- 1) (limiter_threshold clean_profile))
 \<and> level_gt (max_dBFS (apply_mastering bypass quiet clean_profile))
      (dget (- 1) (limiter_threshold clean_profile))"
proof -
  have Tb: "32768 * 10 powr (- (1 / 20)) < (29205::real)" using c20_bounds by simp
  have thr: "dget (- 1) (limiter_threshold clean_profile) = - 1"
    by (simp add: clean_profile_def)
  have out: "apply_mastering bypass quiet clean_profile = quiet\<lparr>samples := [- 29205]\<rparr>"
    by (simp add: apply_mastering_def pre_limiter_quiet limiter_quiet)
  have m1: "max_dBFS (quiet\<lparr>samples := [- 32393]\<rparr>) = ratio_to_db (32393 / 32768)"
    and m2: "max_dBFS (quiet\<lparr>samples := [- 29205]\<rparr>) = ratio_to_db (29205 / 32768)"
    by (simp_all add: max_dBFS_def max_possible_amplitude_def quiet_def)
  have g1: "level_gt (ratio_to_db (32393 / 32768)) (- 1)"
    using Tb by (subst level_of_ratio(2)) simp_all
  have g2: "level_gt (ratio_to_db (29205 / 32768)) (- 1)"
    using Tb by (subst level_of_ratio(2)) simp_all
  have n2: "ratio_to_db (29205 / 32768) \<noteq> Level (- 1)"
    using Tb by (subst level_of_ratio(3)) simp_all
  show ?thesis
    by (simp add: pre_limiter_quiet out thr m1 m2 g1 g2 n2)
qed

theorem limiter_peak_witness:
  "level_gt (max_dBFS (pre_limiter bypass quiet clean_profile))
      (dget (- 1) (limiter_threshold clean_profile))
 \<and> \<bar>real_of_int (audioop_max (samples (apply_mastering bypass quiet clean_profile)))
      - max_possible_amplitude (apply_mastering bypass quiet clean_profile)
          * 10 powr (dget (- 1) (limiter_threshold clean_profile) / 20)\<bar> < 1
 \<and> \<not> level_gt (max_dBFS (pre_limiter bypass silence_b clean_profile))
      (dget (- 1) (limiter_threshold clean_profile))
 \<and> apply_mastering bypass silence_b clean_profile = pre_limiter bypass silence_b clean_profile"
proof -
  have thr: "dget (- 1) (limiter_threshold clean_profile) = - 1"
    by (simp add: clean_profile_def)
  have Tb: "32768 * 10 powr (- (1 / 20)) < (29205::real)" using c20_bounds by simp
  have "max_dBFS (quiet\<lparr>samples := [- 32393]\<rparr>) = ratio_to_db (32393 / 32768)"
    by (simp add: max_dBFS_def max_possible_amplitude_def quiet_def)
  moreover have "level_gt (ratio_to_db (32393 / 32768)) (- 1)"
    using Tb by (subst level_of_ratio(2)) simp_all
  ultimately have g: "level_gt (max_dBFS (pre_limiter bypass quiet clean_profile))
      (dget (- 1) (limiter_threshold clean_profile))"
    by (simp add: pre_limiter_quiet thr)
  have "pre_limiter bypass silence_b clean_profile = silence_b"
    by (simp add: pre_limiter_def clean_profile_def bypass_def normalize_def silence_b_def
        audioop_max_silence)
  moreover have "max_dBFS silence_b = MinusInf"
    by (simp add: max_dBFS_def ratio_to_db_def silence_b_def audioop_max_silence)
  ultimately have s: "\<not> level_gt (max_dBFS (pre_limiter bypass silence_b clean_profile))
      (dget (- 1) (limiter_threshold clean_profile))"
    by simp
  from limiter_peak [of bypass quiet clean_profile] g limiter_peak [of bypass silence_b clean_profile] s
  show ?thesis by blast
qed

end
